theory Spec2Isabelle
  imports Complex_Main
begin

section \<open>Geometry kernel (CG/CG_elem.cpp)\<close>

text \<open>
  The kernel works on \<^verbatim>\<open>std::array<double,3>\<close>.  A value of that type is a record of
  three components; \<open>e0\<close>, \<open>e1\<close>, \<open>e2\<close> stand for the C++ subscripts \<^verbatim>\<open>[0]\<close>,
  \<^verbatim>\<open>[1]\<close>, \<^verbatim>\<open>[2]\<close>.  For the intersection predicates and the boxes, whose results here
  rest on comparisons and on copies of components, doubles are modelled by real numbers.
  For \<open>projectPointSegment\<close>, whose result is the number computed, they are the values
  of the floating-point format (see there).
\<close>

record array3D =
  e0 :: real
  e1 :: real
  e2 :: real

definition vec :: "real \<Rightarrow> real \<Rightarrow> real \<Rightarrow> array3D" where
  "vec a b c = \<lparr>e0 = a, e1 = b, e2 = c\<rparr>"

text \<open>The operators of \<^verbatim>\<open>bitpit_operators.hpp\<close> on arrays, component by component.\<close>

definition vadd :: "array3D \<Rightarrow> array3D \<Rightarrow> array3D" where
  "vadd u v = \<lparr>e0 = e0 u + e0 v, e1 = e1 u + e1 v, e2 = e2 u + e2 v\<rparr>"

definition vsub :: "array3D \<Rightarrow> array3D \<Rightarrow> array3D" where
  "vsub u v = \<lparr>e0 = e0 u - e0 v, e1 = e1 u - e1 v, e2 = e2 u - e2 v\<rparr>"

definition smul :: "real \<Rightarrow> array3D \<Rightarrow> array3D" where
  "smul a v = \<lparr>e0 = a * e0 v, e1 = a * e1 v, e2 = a * e2 v\<rparr>"

definition sdiv :: "array3D \<Rightarrow> real \<Rightarrow> array3D" where
  "sdiv v a = \<lparr>e0 = e0 v / a, e1 = e1 v / a, e2 = e2 v / a\<rparr>"

definition dotProduct :: "array3D \<Rightarrow> array3D \<Rightarrow> real" where
  "dotProduct u v = e0 u * e0 v + e1 u * e1 v + e2 u * e2 v"

definition norm2 :: "array3D \<Rightarrow> real" where
  "norm2 v = sqrt (dotProduct v v)"

subsection \<open>subtractionAABB\<close>

text \<open>
  \<^verbatim>\<open>subtractionAABB(A0, A1, B0, B1, C0, C1)\<close> writes into the output boxes \<open>C0\<close>, \<open>C1\<close>
  one axis at a time, and only when its guard holds; the caller's values stay in the
  components it does not write.  The model takes the caller's \<open>C0\<close>, \<open>C1\<close> and returns
  them updated.  The three branches are transcribed index by index.
\<close>

definition subtractionAABB ::
  "array3D \<Rightarrow> array3D \<Rightarrow> array3D \<Rightarrow> array3D \<Rightarrow> array3D \<Rightarrow> array3D \<Rightarrow> array3D \<times> array3D" where
  "subtractionAABB A0 A1 B0 B1 C0 C1 =
    (let (C0, C1) =
           (if e1 B0 \<le> e1 A0 \<and> e2 B0 \<le> e2 A0 \<and> e1 B1 \<ge> e1 A1 \<and> e2 B1 \<ge> e2 A1
            then (C0\<lparr>e0 := (if e0 B0 \<le> e0 A0 \<and> e0 B1 \<ge> e0 A0 then e0 B1 else e0 A0)\<rparr>,
                  C1\<lparr>e0 := (if e0 B0 \<le> e0 A1 \<and> e0 B1 \<ge> e0 A1 then e0 B0 else e0 A1)\<rparr>)
            else (C0, C1));
         (C0, C1) =
           (if e0 B0 \<le> e0 A0 \<and> e2 B0 \<le> e2 A0 \<and> e0 B1 \<ge> e0 A1 \<and> e2 B1 \<ge> e2 A1
            then (C0\<lparr>e1 := (if e1 B0 \<le> e1 A0 \<and> e1 B1 \<ge> e1 A0 then e1 B1 else e2 A0)\<rparr>,
                  C1\<lparr>e1 := (if e1 B0 \<le> e1 A1 \<and> e1 B1 \<ge> e1 A1 then e1 B0 else e2 A1)\<rparr>)
            else (C0, C1));
         (C0, C1) =
           (if e0 B0 \<le> e0 A0 \<and> e1 B0 \<le> e1 A0 \<and> e0 B1 \<ge> e0 A1 \<and> e1 B1 \<ge> e1 A1
            then (C0\<lparr>e2 := (if e2 B0 \<le> e2 A0 \<and> e2 B1 \<ge> e2 A0 then e2 B1 else e2 A0)\<rparr>,
                  C1\<lparr>e2 := (if e2 B0 \<le> e2 A1 \<and> e2 B1 \<ge> e2 A1 then e2 B0 else e2 A1)\<rparr>)
            else (C0, C1))
     in (C0, C1))"

subsection \<open>Double arithmetic\<close>

text \<open>
  A \<^verbatim>\<open>double\<close> is a finite number, an infinity or NaN.  The two zeros of the format are
  one value here: their sign shows only in a division by zero, where the zero divisor is
  taken as \<open>+0\<close>; the one divisor of \<open>projectPointSegment\<close> is a sum of squares, whose
  zero is \<open>+0\<close>.

  An operation on finite numbers returns its exact result rounded to the format.  The
  rounding \<open>rd\<close> is a parameter of every operation; it gives an infinity on overflow.
  \<open>binary64\<close> below is the rounding of IEEE 754 double precision, to nearest with ties
  to even: 53 significant bits, exponents from -1022 to 1023, subnormal numbers below.
  The other cases follow IEEE 754: NaN propagates, \<open>\<infinity> - \<infinity>\<close>, \<open>0 \<cdot> \<infinity>\<close>, \<open>0 / 0\<close> and
  \<open>\<infinity> / \<infinity>\<close> are NaN, and a comparison with NaN is false.
\<close>

datatype double = Fin real | PInf | NInf | NaN

definition infinity :: "bool \<Rightarrow> double" where
  "infinity positive = (if positive then PInf else NInf)"

fun dneg :: "double \<Rightarrow> double" where
  "dneg (Fin a) = Fin (- a)"
| "dneg PInf = NInf"
| "dneg NInf = PInf"
| "dneg NaN = NaN"

fun dadd :: "(real \<Rightarrow> double) \<Rightarrow> double \<Rightarrow> double \<Rightarrow> double" where
  "dadd rd (Fin a) (Fin b) = rd (a + b)"
| "dadd rd NaN y = NaN"
| "dadd rd x NaN = NaN"
| "dadd rd PInf NInf = NaN"
| "dadd rd NInf PInf = NaN"
| "dadd rd PInf y = PInf"
| "dadd rd NInf y = NInf"
| "dadd rd x PInf = PInf"
| "dadd rd x NInf = NInf"

definition dsub :: "(real \<Rightarrow> double) \<Rightarrow> double \<Rightarrow> double \<Rightarrow> double" where
  "dsub rd x y = dadd rd x (dneg y)"

fun dmul :: "(real \<Rightarrow> double) \<Rightarrow> double \<Rightarrow> double \<Rightarrow> double" where
  "dmul rd (Fin a) (Fin b) = rd (a * b)"
| "dmul rd NaN y = NaN"
| "dmul rd x NaN = NaN"
| "dmul rd PInf (Fin b) = (if b = 0 then NaN else infinity (0 < b))"
| "dmul rd NInf (Fin b) = (if b = 0 then NaN else infinity (b < 0))"
| "dmul rd (Fin a) PInf = (if a = 0 then NaN else infinity (0 < a))"
| "dmul rd (Fin a) NInf = (if a = 0 then NaN else infinity (a < 0))"
| "dmul rd PInf PInf = PInf"
| "dmul rd PInf NInf = NInf"
| "dmul rd NInf PInf = NInf"
| "dmul rd NInf NInf = PInf"

fun ddiv :: "(real \<Rightarrow> double) \<Rightarrow> double \<Rightarrow> double \<Rightarrow> double" where
  "ddiv rd (Fin a) (Fin b) =
     (if b = 0 then (if a = 0 then NaN else infinity (0 < a)) else rd (a / b))"
| "ddiv rd NaN y = NaN"
| "ddiv rd x NaN = NaN"
| "ddiv rd (Fin a) PInf = Fin 0"
| "ddiv rd (Fin a) NInf = Fin 0"
| "ddiv rd PInf (Fin b) = infinity (0 \<le> b)"
| "ddiv rd NInf (Fin b) = infinity (b < 0)"
| "ddiv rd PInf PInf = NaN"
| "ddiv rd PInf NInf = NaN"
| "ddiv rd NInf PInf = NaN"
| "ddiv rd NInf NInf = NaN"

text \<open>The operator \<^verbatim>\<open><\<close>, and \<^verbatim>\<open>std::min(a, b)\<close>, which is \<^verbatim>\<open>(b < a) ? b : a\<close>, and
  \<^verbatim>\<open>std::max(a, b)\<close>, which is \<^verbatim>\<open>(a < b) ? b : a\<close>.\<close>

fun dless :: "double \<Rightarrow> double \<Rightarrow> bool" where
  "dless (Fin a) (Fin b) = (a < b)"
| "dless NaN y = False"
| "dless x NaN = False"
| "dless NInf NInf = False"
| "dless NInf y = True"
| "dless PInf y = False"
| "dless x PInf = True"
| "dless x NInf = False"

definition dmin :: "double \<Rightarrow> double \<Rightarrow> double" where
  "dmin a b = (if dless b a then b else a)"

definition dmax :: "double \<Rightarrow> double \<Rightarrow> double" where
  "dmax a b = (if dless a b then b else a)"

text \<open>Rounding to the nearest integer, ties to the even one.\<close>

definition roundEven :: "real \<Rightarrow> int" where
  "roundEven x =
     (let f = \<lfloor>x\<rfloor>
      in if x - of_int f < 1 / 2 then f
         else if x - of_int f > 1 / 2 then f + 1
         else if even f then f else f + 1)"

text \<open>
  The rounding of IEEE 754 double precision.  \<open>e\<close> is the exponent of \<open>x\<close>, not below
  that of the subnormal numbers; \<open>q\<close> is the spacing of the format at that exponent; the
  result is the multiple of \<open>q\<close> nearest to \<open>x\<close>, or an infinity if that is beyond the
  largest number of the format.
\<close>

definition binary64 :: "real \<Rightarrow> double" where
  "binary64 x =
     (if x = 0 then Fin 0
      else (let e = max \<lfloor>log 2 \<bar>x\<bar>\<rfloor> (- 1022);
                q = 2 powr (of_int e - 52);
                r = of_int (roundEven (x / q)) * q
            in if \<bar>r\<bar> \<ge> 2 ^ 1024 then infinity (0 < x) else Fin r))"

text \<open>Arrays of doubles, and the operators of \<^verbatim>\<open>bitpit_operators.hpp\<close> on them
  (not in the sources): component by component, the dot product summed in the order of
  the components.\<close>

record darray3D =
  d0 :: double
  d1 :: double
  d2 :: double

definition dvec :: "double \<Rightarrow> double \<Rightarrow> double \<Rightarrow> darray3D" where
  "dvec a b c = \<lparr>d0 = a, d1 = b, d2 = c\<rparr>"

definition dvadd :: "(real \<Rightarrow> double) \<Rightarrow> darray3D \<Rightarrow> darray3D \<Rightarrow> darray3D" where
  "dvadd rd u v =
     \<lparr>d0 = dadd rd (d0 u) (d0 v), d1 = dadd rd (d1 u) (d1 v), d2 = dadd rd (d2 u) (d2 v)\<rparr>"

definition dvsub :: "(real \<Rightarrow> double) \<Rightarrow> darray3D \<Rightarrow> darray3D \<Rightarrow> darray3D" where
  "dvsub rd u v =
     \<lparr>d0 = dsub rd (d0 u) (d0 v), d1 = dsub rd (d1 u) (d1 v), d2 = dsub rd (d2 u) (d2 v)\<rparr>"

definition dsmul :: "(real \<Rightarrow> double) \<Rightarrow> double \<Rightarrow> darray3D \<Rightarrow> darray3D" where
  "dsmul rd a v = \<lparr>d0 = dmul rd a (d0 v), d1 = dmul rd a (d1 v), d2 = dmul rd a (d2 v)\<rparr>"

definition ddotProduct :: "(real \<Rightarrow> double) \<Rightarrow> darray3D \<Rightarrow> darray3D \<Rightarrow> double" where
  "ddotProduct rd u v =
     dadd rd (dadd rd (dmul rd (d0 u) (d0 v)) (dmul rd (d1 u) (d1 v))) (dmul rd (d2 u) (d2 v))"

subsection \<open>Projection of a point on a segment\<close>

definition reconstructPointFromBarycentricSegment ::
  "(real \<Rightarrow> double) \<Rightarrow> darray3D \<Rightarrow> darray3D \<Rightarrow> double \<times> double \<Rightarrow> darray3D" where
  "reconstructPointFromBarycentricSegment rd Q0 Q1 lambda =
     dvadd rd (dsmul rd (fst lambda) Q0) (dsmul rd (snd lambda) Q1)"

text \<open>
  \<^verbatim>\<open>projectPointSegment(P, Q0, Q1, lambda)\<close> returns the projection and writes the two
  barycentric coordinates through \<open>lambda\<close>; the model returns both.
\<close>

definition projectPointSegment ::
  "(real \<Rightarrow> double) \<Rightarrow> darray3D \<Rightarrow> darray3D \<Rightarrow> darray3D \<Rightarrow> darray3D \<times> (double \<times> double)" where
  "projectPointSegment rd P Q0 Q1 =
     (let n = dvsub rd Q1 Q0;
          t = ddiv rd (dneg (ddotProduct rd n (dvsub rd Q0 P))) (ddotProduct rd n n);
          t = dmax (dmin t (Fin 1)) (Fin 0);
          lambda = (dsub rd (Fin 1) t, t)
      in (reconstructPointFromBarycentricSegment rd Q0 Q1 lambda, lambda))"

text \<open>The value of \<open>t\<close> before it is restricted to the segment.\<close>

definition lineParameter :: "(real \<Rightarrow> double) \<Rightarrow> darray3D \<Rightarrow> darray3D \<Rightarrow> darray3D \<Rightarrow> double" where
  "lineParameter rd P Q0 Q1 =
     ddiv rd (dneg (ddotProduct rd (dvsub rd Q1 Q0) (dvsub rd Q0 P)))
       (ddotProduct rd (dvsub rd Q1 Q0) (dvsub rd Q1 Q0))"

subsection \<open>Intersection predicates with an output point\<close>

text \<open>
  A predicate with an output parameter takes the caller's value of that parameter and
  returns the boolean together with the value the caller sees afterwards.
\<close>

definition projectPointLine :: "array3D \<Rightarrow> array3D \<Rightarrow> array3D \<Rightarrow> array3D" where
  "projectPointLine P Q n = vadd Q (smul (dotProduct (vsub P Q) n) n)"

definition distancePointLine :: "array3D \<Rightarrow> array3D \<Rightarrow> array3D \<Rightarrow> real \<times> array3D" where
  "distancePointLine P Q n = (let xP = projectPointLine P Q n in (norm2 (vsub P xP), xP))"

text \<open>\<open>distanceLineLine\<close> returns the distance and the two output points \<open>xP0\<close>, \<open>xP1\<close>,
  which it writes on both paths.\<close>

definition distanceLineLine ::
  "array3D \<Rightarrow> array3D \<Rightarrow> array3D \<Rightarrow> array3D \<Rightarrow> real \<times> array3D \<times> array3D" where
  "distanceLineLine P0 n0 P1 n1 =
     (let n01 = dotProduct n0 n1;
          det = 1 - n01 * n01
      in if \<bar>det\<bar> < 1 / 10 ^ 12
         then (let (distance, xP1) = distancePointLine P0 P1 n1;
                   xP0 = projectPointLine xP1 P0 n0
               in (distance, xP0, xP1))
         else (let dP = vsub P1 P0;
                   rhs0 = dotProduct dP n0;
                   rhs1 = - dotProduct dP n1;
                   det0 = rhs0 + rhs1 * n01;
                   det1 = rhs1 + rhs0 * n01;
                   s0 = det0 / det;
                   s1 = det1 / det;
                   xP0 = vadd P0 (smul s0 n0);
                   xP1 = vadd P1 (smul s1 n1)
               in (norm2 (vsub xP0 xP1), xP0, xP1)))"

definition intersectLineLine ::
  "array3D \<Rightarrow> array3D \<Rightarrow> array3D \<Rightarrow> array3D \<Rightarrow> array3D \<Rightarrow> bool \<times> array3D" where
  "intersectLineLine P1 n1 P2 n2 P =
     (let tol = 1 / 10 ^ 12;
          (d, xP1, xP2) = distanceLineLine P1 n1 P2 n2
      in if d < tol then (True, xP1) else (False, P))"

definition intersectSegmentSegment ::
  "array3D \<Rightarrow> array3D \<Rightarrow> array3D \<Rightarrow> array3D \<Rightarrow> array3D \<Rightarrow> bool \<times> array3D" where
  "intersectSegmentSegment P1 P2 Q1 Q2 x =
     (let abs_tol = 1 / 10 ^ 14;
          nP = vsub P2 P1;
          lP = norm2 nP;
          nP = sdiv nP lP;
          nQ = vsub Q2 Q1;
          lQ = norm2 nQ;
          nQ = sdiv nQ lQ;
          (hit, x) = intersectLineLine P1 nP Q1 nQ x
      in if hit
         then (let lxP = dotProduct (vsub x P1) nP;
                   lxQ = dotProduct (vsub x Q1) nQ
               in if lxP \<le> lP + abs_tol \<and> lxP \<ge> - abs_tol \<and> lxQ \<le> lQ + abs_tol \<and> lxQ \<ge> - abs_tol
                  then (True, x)
                  else (False, x))
         else (False, x))"

definition intersectLinePlane ::
  "array3D \<Rightarrow> array3D \<Rightarrow> array3D \<Rightarrow> array3D \<Rightarrow> array3D \<Rightarrow> bool \<times> array3D" where
  "intersectLinePlane P1 n1 P2 n2 P =
     (let tol = 1 / 10 ^ 14;
          s = dotProduct n1 n2
      in if \<bar>s\<bar> < tol then (False, P)
         else (let xi = - dotProduct (vsub P1 P2) n2 / s
               in (True, vadd P1 (smul xi n1))))"

definition intersectPointSegment :: "array3D \<Rightarrow> array3D \<Rightarrow> array3D \<Rightarrow> bool" where
  "intersectPointSegment P P1 P2 =
     (let tol = 1 / 10 ^ 14;
          check = (norm2 (vsub P P2) \<le> tol)
      in if \<not> check
         then (let n1 = vsub P1 P2;
                   d1 = norm2 n1;
                   n1 = sdiv n1 d1;
                   n2 = vsub P P2;
                   d2 = norm2 n2;
                   n2 = sdiv n2 d2
               in dotProduct n1 n2 \<ge> 1 - tol \<and> d2 \<le> d1)
         else check)"

text \<open>
  \<open>intersectSegmentPlane\<close> keeps the candidate point in a local \<open>xP\<close> that is not
  initialised; \<open>xP_local\<close> is the content that local happens to have at entry.
\<close>

definition intersectSegmentPlane ::
  "array3D \<Rightarrow> array3D \<Rightarrow> array3D \<Rightarrow> array3D \<Rightarrow> array3D \<Rightarrow> array3D \<Rightarrow> bool \<times> array3D" where
  "intersectSegmentPlane xP_local Q1 Q2 P2 n2 P =
     (let n = vsub Q2 Q1;
          n = sdiv n (norm2 n);
          (hit, xP) = intersectLinePlane Q1 n P2 n2 xP_local
      in if hit \<and> intersectPointSegment xP Q1 Q2 then (True, xP) else (False, P))"

definition computeAABBSegment :: "array3D \<Rightarrow> array3D \<Rightarrow> array3D \<times> array3D" where
  "computeAABBSegment A B =
     (\<lparr>e0 = min (e0 A) (e0 B), e1 = min (e1 A) (e1 B), e2 = min (e2 A) (e2 B)\<rparr>,
      \<lparr>e0 = max (e0 A) (e0 B), e1 = max (e1 A) (e1 B), e2 = max (e2 A) (e2 B)\<rparr>)"

text \<open>Reading component \<open>d\<close> of an array: a subscript beyond 2 is outside the array.\<close>

datatype error = RuntimeError | OutOfRange | AssertionFailure | UndefinedBehaviour

definition component :: "array3D \<Rightarrow> nat \<Rightarrow> error + real" where
  "component v d =
     (if d = 0 then Inr (e0 v) else if d = 1 then Inr (e1 v)
      else if d = 2 then Inr (e2 v) else Inl UndefinedBehaviour)"

function intersectBoxBox_from ::
  "nat \<Rightarrow> array3D \<Rightarrow> array3D \<Rightarrow> array3D \<Rightarrow> array3D \<Rightarrow> nat \<Rightarrow> error + bool" where
  "intersectBoxBox_from d A1 A2 B1 B2 ndim =
     (if d < ndim
      then (case (component A1 d, component A2 d, component B1 d, component B2 d) of
              (Inr a1, Inr a2, Inr b1, Inr b2) \<Rightarrow>
                 if b1 > a2 \<or> b2 < a1 then Inr False
                 else intersectBoxBox_from (d + 1) A1 A2 B1 B2 ndim
            | _ \<Rightarrow> Inl UndefinedBehaviour)
      else Inr True)"
  by pat_completeness auto
termination
  by (relation "measure (\<lambda>(d, A1, A2, B1, B2, ndim). ndim - d)") auto

definition intersectBoxBox ::
  "array3D \<Rightarrow> array3D \<Rightarrow> array3D \<Rightarrow> array3D \<Rightarrow> nat \<Rightarrow> error + bool" where
  "intersectBoxBox A1 A2 B1 B2 ndim = intersectBoxBox_from 0 A1 A2 B1 B2 ndim"

definition vertexOfBox :: "nat \<Rightarrow> array3D \<Rightarrow> array3D \<Rightarrow> array3D \<Rightarrow> array3D" where
  "vertexOfBox i A0 A1 P =
     (if i = 0 then \<lparr>e0 = e0 A0, e1 = e1 A0, e2 = e2 A0\<rparr>
      else if i = 1 then \<lparr>e0 = e0 A1, e1 = e1 A0, e2 = e2 A0\<rparr>
      else if i = 2 then \<lparr>e0 = e0 A0, e1 = e1 A1, e2 = e2 A0\<rparr>
      else if i = 3 then \<lparr>e0 = e0 A1, e1 = e1 A1, e2 = e2 A0\<rparr>
      else if i = 4 then \<lparr>e0 = e0 A0, e1 = e1 A0, e2 = e2 A1\<rparr>
      else if i = 5 then \<lparr>e0 = e0 A1, e1 = e1 A0, e2 = e2 A1\<rparr>
      else if i = 6 then \<lparr>e0 = e0 A0, e1 = e1 A1, e2 = e2 A1\<rparr>
      else if i = 7 then \<lparr>e0 = e0 A1, e1 = e1 A1, e2 = e2 A1\<rparr>
      else P)"

text \<open>
  The tables \<^verbatim>\<open>boxEdgeVertexConnectivity\<close> and \<^verbatim>\<open>boxFaceVertexConnectivity\<close> are
  declared outside the sources at hand; \<open>edgeOfBox\<close> and \<open>faceOfBox\<close> take them as
  parameters (row \<open>i\<close> of the table as a pair, respectively a list of four entries).
\<close>

definition edgeOfBox ::
  "(nat \<Rightarrow> nat \<times> nat) \<Rightarrow> nat \<Rightarrow> array3D \<Rightarrow> array3D \<Rightarrow> array3D \<times> array3D \<Rightarrow> array3D \<times> array3D" where
  "edgeOfBox boxEdgeVertexConnectivity i A0 A1 E =
     (let v0 = fst (boxEdgeVertexConnectivity i);
          v1 = snd (boxEdgeVertexConnectivity i)
      in (vertexOfBox v0 A0 A1 (fst E), vertexOfBox v1 A0 A1 (snd E)))"

definition faceOfBox ::
  "(nat \<Rightarrow> nat list) \<Rightarrow> nat \<Rightarrow> array3D \<Rightarrow> array3D \<Rightarrow> array3D list \<Rightarrow> array3D list" where
  "faceOfBox boxFaceVertexConnectivity i A0 A1 E =
     map (\<lambda>(v, P). vertexOfBox v A0 A1 P) (zip (boxFaceVertexConnectivity i) E)"

text \<open>
  The loops of \<open>intersectSegmentBox\<close> over the four edges (2-D) and over the faces (3-D).
  The locals \<open>E1\<close>, \<open>E2\<close> (respectively \<open>E\<close>) and \<open>p\<close> live across the iterations, so the
  loop state carries them together with the flag \<open>intersect\<close> and the output list \<open>P\<close>.
  The 3-D loop calls \<open>intersectSegmentSimplex\<close>, whose own callees end in a LAPACK solve;
  it is a parameter here, returning its boolean and the value left in its output point.
\<close>

function intersectSegmentBox_edges ::
  "(nat \<Rightarrow> nat \<times> nat) \<Rightarrow> nat \<Rightarrow> array3D \<Rightarrow> array3D \<Rightarrow> array3D \<Rightarrow> array3D
     \<Rightarrow> array3D \<times> array3D \<Rightarrow> array3D \<Rightarrow> bool \<Rightarrow> array3D list \<Rightarrow> bool \<times> array3D list" where
  "intersectSegmentBox_edges tab i V1 V2 A1 A2 E p intersect P =
     (if i < 4
      then (let E = edgeOfBox tab i A1 A2 E;
                (hit, p) = intersectSegmentSegment (fst E) (snd E) V1 V2 p
            in if hit
               then intersectSegmentBox_edges tab (i + 1) V1 V2 A1 A2 E p True (P @ [p])
               else intersectSegmentBox_edges tab (i + 1) V1 V2 A1 A2 E p intersect P)
      else (intersect, P))"
  by pat_completeness auto
termination
  by (relation "measure (\<lambda>(tab, i, V1, V2, A1, A2, E, p, intersect, P). 4 - i)") auto

function intersectSegmentBox_faces ::
  "(nat \<Rightarrow> nat list) \<Rightarrow> (array3D \<Rightarrow> array3D \<Rightarrow> array3D list \<Rightarrow> array3D \<Rightarrow> bool \<times> array3D)
     \<Rightarrow> nat \<Rightarrow> array3D \<Rightarrow> array3D \<Rightarrow> array3D \<Rightarrow> array3D
     \<Rightarrow> array3D list \<Rightarrow> array3D \<Rightarrow> bool \<Rightarrow> array3D list \<Rightarrow> bool \<times> array3D list" where
  "intersectSegmentBox_faces tab intersectSegmentSimplex i V1 V2 A1 A2 E p intersect P =
     (if i < 12
      then (let E = faceOfBox tab i A1 A2 E;
                (hit, p) = intersectSegmentSimplex V1 V2 E p
            in if hit
               then intersectSegmentBox_faces tab intersectSegmentSimplex (i + 1) V1 V2 A1 A2 E p True (P @ [p])
               else intersectSegmentBox_faces tab intersectSegmentSimplex (i + 1) V1 V2 A1 A2 E p intersect P)
      else (intersect, P))"
  by pat_completeness auto
termination
  by (relation "measure (\<lambda>(tab, f, i, V1, V2, A1, A2, E, p, intersect, P). 12 - i)") auto

text \<open>
  \<open>intersectSegmentBox\<close> with the output list \<open>P\<close>.  \<open>locals\<close> holds the contents of the
  uninitialised locals at entry: the two edge end points, the four face corners and the
  point \<open>p\<close>.  For a \<open>dim\<close> other than 2 and 3 the function runs off its end without a
  \<^verbatim>\<open>return\<close>.
\<close>

definition intersectSegmentBox ::
  "(nat \<Rightarrow> nat \<times> nat) \<Rightarrow> (nat \<Rightarrow> nat list)
     \<Rightarrow> (array3D \<Rightarrow> array3D \<Rightarrow> array3D list \<Rightarrow> array3D \<Rightarrow> bool \<times> array3D)
     \<Rightarrow> (array3D \<times> array3D) \<times> array3D list \<times> array3D
     \<Rightarrow> array3D \<Rightarrow> array3D \<Rightarrow> array3D \<Rightarrow> array3D \<Rightarrow> array3D list \<Rightarrow> nat
     \<Rightarrow> error + bool \<times> array3D list" where
  "intersectSegmentBox edgeTab faceTab intersectSegmentSimplex locals V1 V2 A1 A2 P ndim =
     (let P = [];
          (B1, B2) = computeAABBSegment V1 V2
      in case intersectBoxBox A1 A2 B1 B2 ndim of
           Inl err \<Rightarrow> Inl err
         | Inr overlap \<Rightarrow>
             if \<not> overlap then Inr (False, P)
             else if ndim = 2
             then Inr (intersectSegmentBox_edges edgeTab 0 V1 V2 A1 A2
                         (fst locals) (snd (snd locals)) False P)
             else if ndim = 3
             then Inr (intersectSegmentBox_faces faceTab intersectSegmentSimplex 0 V1 V2 A1 A2
                         (fst (snd locals)) (snd (snd locals)) False P)
             else Inl UndefinedBehaviour)"

section \<open>The octree patch (voloctree/voloctree.cpp, patchkernel/cell.cpp)\<close>

subsection \<open>Data\<close>

text \<open>
  Cell, vertex and interface ids are C++ \<^verbatim>\<open>long\<close> (64 bits), tree indices are
  \<^verbatim>\<open>uint32_t\<close>.  Ids are modelled by integers and tree indices by naturals; where
  the code passes an id through a narrower type the conversion is written out
  (\<open>long_to_int\<close>).  \<open>NULL_ID\<close> is the negative placeholder of \<^verbatim>\<open>Element::NULL_ID\<close>.
\<close>

type_synonym long = int

definition NULL_ID :: long where
  "NULL_ID = - 1"

definition long_to_int :: "long \<Rightarrow> int" where
  "long_to_int x = (x + 2 ^ 31) mod 2 ^ 32 - 2 ^ 31"

fun bindE :: "error + 'a \<Rightarrow> ('a \<Rightarrow> error + 'b) \<Rightarrow> error + 'b" where
  "bindE (Inl e) f = Inl e"
| "bindE (Inr x) f = f x"

text \<open>\<^verbatim>\<open>v[i]\<close> on a \<^verbatim>\<open>std::vector\<close>: no bounds check, a subscript past the end is
  undefined behaviour.\<close>

definition subscript :: "'a list \<Rightarrow> nat \<Rightarrow> error + 'a" where
  "subscript xs i = (if i < length xs then Inr (xs ! i) else Inl UndefinedBehaviour)"

text \<open>\<^verbatim>\<open>m.at(k)\<close> on a \<^verbatim>\<open>std::unordered_map\<close>: throws \<^verbatim>\<open>std::out_of_range\<close> on a
  missing key.\<close>

definition map_at :: "('k \<rightharpoonup> 'v) \<Rightarrow> 'k \<Rightarrow> error + 'v" where
  "map_at m k = (case m k of None \<Rightarrow> Inl OutOfRange | Some v \<Rightarrow> Inr v)"

text \<open>
  A cell (class \<open>Cell\<close>): the interior flag, the vertex connectivity, and the two ragged
  arrays with one run per face.
\<close>

record Cell =
  m_interior :: bool
  m_connect :: "long list"
  m_cell_interfaces :: "long list list"
  m_adjacencies :: "long list list"

text \<open>
  Modelled from the spec: class \<open>Interface\<close> is not in the sources.  The spec gives it an
  owner cell id with the owner's local face index and a neighbour cell id with its local
  face index, or a border flag; a border interface is one without neighbour.
\<close>

record Interface =
  m_owner :: long
  m_ownerFace :: nat
  m_neigh :: long
  m_neighFace :: nat

definition isBorder :: "Interface \<Rightarrow> bool" where
  "isBorder i = (m_neigh i < 0)"

datatype TreeOperation =
  OP_INITIALIZATION | OP_ADAPTION_MAPPED | OP_ADAPTION_UNMAPPED | OP_LOAD_BALANCE

text \<open>
  Modelled from the spec: the octree (PABLO, class \<open>PabloUniform\<close>) is not in the sources.
  The record keeps what the patch reads from it and writes to it: the root edge length
  \<open>L\<close>, \<open>MAX_LEVEL\<close>, the current maximum depth, the numbers of internal and ghost
  octants, the level of each octant, the refinement marker and the balance flag that
  \<open>set_marker\<close> and \<open>set_balance\<close> store, and the mapping table of the last adaption
  with the flags \<open>is_new_R\<close> and \<open>is_new_C\<close>.  An entry of the mapping of \<open>t\<close> is a
  pre-adaption tree index with its ghost flag and its rank (the three parallel vectors
  of \<open>getMapping\<close>).  \<open>findNeighbours\<close> and \<open>findGhostNeighbours\<close> give, for an octant
  and a face, the face neighbours as tree index and ghost flag; \<open>oppface\<close> is the table of
  matching faces, \<open>nodeMorton\<close> the Morton key of a corner of an internal or ghost
  octant and \<open>node\<close> its coordinates.
\<close>

record PabloUniform =
  tree_L :: real
  tree_maxLevel :: nat
  tree_maxDepth :: nat
  tree_numOctants :: nat
  tree_numGhosts :: nat
  tree_level :: "nat \<Rightarrow> nat"
  tree_ghostLevel :: "nat \<Rightarrow> nat"
  tree_marker :: "nat \<Rightarrow> int"
  tree_balance :: "nat \<Rightarrow> bool"
  tree_mapping :: "nat \<Rightarrow> (nat \<times> bool \<times> int) list"
  tree_isNewR :: "nat \<Rightarrow> bool"
  tree_isNewC :: "nat \<Rightarrow> bool"
  tree_findNeighbours :: "nat \<Rightarrow> nat \<Rightarrow> (nat \<times> bool) list"
  tree_findGhostNeighbours :: "nat \<Rightarrow> nat \<Rightarrow> (nat \<times> bool) list"
  tree_oppface :: "nat \<Rightarrow> nat"
  tree_nodeMorton :: "bool \<Rightarrow> nat \<Rightarrow> nat \<Rightarrow> nat"
  tree_node :: "bool \<Rightarrow> nat \<Rightarrow> nat \<Rightarrow> array3D"

definition setMarker :: "nat \<Rightarrow> int \<Rightarrow> PabloUniform \<Rightarrow> PabloUniform" where
  "setMarker idx marker t = t\<lparr>tree_marker := (tree_marker t)(idx := marker)\<rparr>"

definition setBalance :: "nat \<Rightarrow> bool \<Rightarrow> PabloUniform \<Rightarrow> PabloUniform" where
  "setBalance idx enabled t = t\<lparr>tree_balance := (tree_balance t)(idx := enabled)\<rparr>"

definition setL :: "real \<Rightarrow> PabloUniform \<Rightarrow> PabloUniform" where
  "setL l t = t\<lparr>tree_L := l\<rparr>"

text \<open>
  The patch (class \<open>VolOctree\<close> with the containers it inherits): the dimension, the
  octree, the last operation on the octree, the three per-level tables, the pierced
  containers of cells, interfaces and vertices (id to element), the four maps that link
  cells and octants, and the generators of cell and vertex ids.

  Modelled from the spec: the id generators of the patch kernel are not in the sources.
  By the spec an id is never reused for a different item; a generator is the next id it
  will hand out.
\<close>

record VolOctree =
  dimension :: nat
  m_tree :: PabloUniform
  m_lastTreeOperation :: TreeOperation
  m_tree_dh :: "real list"
  m_tree_area :: "real list"
  m_tree_volume :: "real list"
  m_cells :: "long \<rightharpoonup> Cell"
  m_interfaces :: "long \<rightharpoonup> Interface"
  m_vertices :: "long \<rightharpoonup> array3D"
  m_cellToOctant :: "long \<rightharpoonup> nat"
  m_octantToCell :: "nat \<rightharpoonup> long"
  m_cellToGhost :: "long \<rightharpoonup> nat"
  m_ghostToCell :: "nat \<rightharpoonup> long"
  m_cellIdGenerator :: long
  m_vertexIdGenerator :: long

record OctantInfo =
  oi_id :: nat
  oi_internal :: bool

definition getCellCount :: "VolOctree \<Rightarrow> nat" where
  "getCellCount p = card (dom (m_cells p))"

subsection \<open>Per-level geometry\<close>

definition initializeTreeGeometry :: "VolOctree \<Rightarrow> VolOctree" where
  "initializeTreeGeometry p =
     (let maxLevels = tree_maxLevel (m_tree p);
          len = tree_L (m_tree p);
          levelLength = (\<lambda>i. len / 2 ^ i)
      in p\<lparr>m_tree_dh := map (\<lambda>i. levelLength i) [0..<maxLevels],
           m_tree_area := map (\<lambda>i. levelLength i ^ (dimension p - 1)) [0..<maxLevels],
           m_tree_volume := map (\<lambda>i. levelLength i ^ dimension p) [0..<maxLevels]\<rparr>)"

text \<open>\<open>m_cells[id]\<close> on the pierced container does not check the id (\<open>ident\<close> below).\<close>

definition getCellOctant :: "VolOctree \<Rightarrow> long \<Rightarrow> error + OctantInfo" where
  "getCellOctant p ident =
     (case m_cells p ident of
        None \<Rightarrow> Inl UndefinedBehaviour
      | Some cell \<Rightarrow>
          if m_interior cell
          then bindE (map_at (m_cellToOctant p) ident) (\<lambda>t. Inr \<lparr>oi_id = t, oi_internal = True\<rparr>)
          else bindE (map_at (m_cellToGhost p) ident) (\<lambda>t. Inr \<lparr>oi_id = t, oi_internal = False\<rparr>))"

definition getCellLevel :: "VolOctree \<Rightarrow> long \<Rightarrow> error + nat" where
  "getCellLevel p ident =
     bindE (getCellOctant p ident) (\<lambda>octantInfo.
       if oi_internal octantInfo
       then Inr (tree_level (m_tree p) (oi_id octantInfo))
       else Inr (tree_ghostLevel (m_tree p) (oi_id octantInfo)))"

definition evalCellVolume :: "VolOctree \<Rightarrow> long \<Rightarrow> error + real" where
  "evalCellVolume p ident = bindE (getCellLevel p ident) (\<lambda>level. subscript (m_tree_volume p) level)"

definition evalCellSize :: "VolOctree \<Rightarrow> long \<Rightarrow> error + real" where
  "evalCellSize p ident = bindE (getCellLevel p ident) (\<lambda>level. subscript (m_tree_dh p) level)"

text \<open>\<open>evalInterfaceArea\<close> stores the owner id in an \<^verbatim>\<open>int\<close> before it asks for the
  owner's level.\<close>

definition evalInterfaceArea :: "VolOctree \<Rightarrow> long \<Rightarrow> error + real" where
  "evalInterfaceArea p ident =
     (case m_interfaces p ident of
        None \<Rightarrow> Inl UndefinedBehaviour
      | Some interface \<Rightarrow>
          (let owner = long_to_int (m_owner interface)
           in bindE (getCellLevel p owner) (\<lambda>level. subscript (m_tree_area p) level)))"

subsection \<open>Scaling\<close>

text \<open>
  \<open>scale\<close> asserts the flag \<open>uniformScaling\<close> and then tests it again; \<open>ndebug\<close> tells
  whether the build compiles assertions out.  \<open>VolumeKernel::scale\<close>, which moves the
  vertices, is not in the sources and is the parameter \<open>VolumeKernel_scale\<close> on the
  vertex container.
\<close>

definition scale ::
  "bool \<Rightarrow> (array3D \<Rightarrow> (long \<rightharpoonup> array3D) \<Rightarrow> (long \<rightharpoonup> array3D)) \<Rightarrow> array3D \<Rightarrow> VolOctree
     \<Rightarrow> error + VolOctree" where
  "scale ndebug VolumeKernel_scale scaling p =
     (let uniformScaling = True;
          uniformScaling = (uniformScaling \<and> \<bar>e0 scaling - e1 scaling\<bar> > 1 / 10 ^ 14);
          uniformScaling = (uniformScaling \<and> \<bar>e0 scaling - e2 scaling\<bar> > 1 / 10 ^ 14)
      in if \<not> ndebug \<and> \<not> uniformScaling then Inl AssertionFailure
         else if \<not> uniformScaling then Inr p
         else (let p = p\<lparr>m_tree := setL (tree_L (m_tree p) * e0 scaling) (m_tree p)\<rparr>;
                   p = initializeTreeGeometry p
               in Inr (p\<lparr>m_vertices := VolumeKernel_scale scaling (m_vertices p)\<rparr>)))"

subsection \<open>Markers\<close>

text \<open>The marker functions return the boolean and the patch with its octree updated.\<close>

definition set_marker :: "VolOctree \<Rightarrow> long \<Rightarrow> int \<Rightarrow> error + bool \<times> VolOctree" where
  "set_marker p ident val =
     bindE (getCellOctant p ident) (\<lambda>octantInfo.
       if \<not> oi_internal octantInfo then Inr (False, p)
       else Inr (True, p\<lparr>m_tree := setMarker (oi_id octantInfo) val (m_tree p)\<rparr>))"

definition markCellForRefinement :: "VolOctree \<Rightarrow> long \<Rightarrow> error + bool \<times> VolOctree" where
  "markCellForRefinement p ident = set_marker p ident 1"

definition markCellForCoarsening :: "VolOctree \<Rightarrow> long \<Rightarrow> error + bool \<times> VolOctree" where
  "markCellForCoarsening p ident = set_marker p ident (- 1)"

definition enableCellBalancing :: "VolOctree \<Rightarrow> long \<Rightarrow> bool \<Rightarrow> error + bool \<times> VolOctree" where
  "enableCellBalancing p ident enabled =
     bindE (getCellOctant p ident) (\<lambda>octantInfo.
       if \<not> oi_internal octantInfo then Inr (False, p)
       else Inr (True, p\<lparr>m_tree := setBalance (oi_id octantInfo) enabled (m_tree p)\<rparr>))"

subsection \<open>Runs of a cell (patchkernel/cell.cpp)\<close>

text \<open>
  The adjacencies and the interfaces of a cell are ragged arrays with one run per face
  (class \<open>FlatVector2D\<close>, not in the sources): a list of runs.  Reading or writing the
  run of a face the cell does not have, or erasing at a position outside the run, is an
  access outside the buffer.

  \<open>findAdjacency\<close> and \<open>findInterface\<close> are declared with an \<^verbatim>\<open>int\<close> for the id they
  look for, and compare it with the \<^verbatim>\<open>long\<close> entries of the run; \<open>pushAdjacency\<close>,
  \<open>pushInterface\<close> and \<open>deleteCells\<close> pass them a \<^verbatim>\<open>long\<close>, which the call converts.
  The result is the position of the first match, or -1.
\<close>

primrec findItem :: "long list \<Rightarrow> int \<Rightarrow> nat \<Rightarrow> int" where
  "findItem [] x i = - 1"
| "findItem (y # ys) x i = (if y = x then int i else findItem ys x (i + 1))"

definition findAdjacency :: "Cell \<Rightarrow> nat \<Rightarrow> int \<Rightarrow> error + int" where
  "findAdjacency cell face adjacency =
     bindE (subscript (m_adjacencies cell) face) (\<lambda>run. Inr (findItem run adjacency 0))"

definition findInterface :: "Cell \<Rightarrow> nat \<Rightarrow> int \<Rightarrow> error + int" where
  "findInterface cell face interface =
     bindE (subscript (m_cell_interfaces cell) face) (\<lambda>run. Inr (findItem run interface 0))"

definition pushBackItem :: "long list list \<Rightarrow> nat \<Rightarrow> long \<Rightarrow> error + long list list" where
  "pushBackItem runs face x =
     (if face < length runs then Inr (runs[face := runs ! face @ [x]]) else Inl UndefinedBehaviour)"

definition eraseItem :: "long list list \<Rightarrow> nat \<Rightarrow> int \<Rightarrow> error + long list list" where
  "eraseItem runs face i =
     (if face < length runs \<and> 0 \<le> i \<and> nat i < length (runs ! face)
      then Inr (runs[face := take (nat i) (runs ! face) @ drop (nat i + 1) (runs ! face)])
      else Inl UndefinedBehaviour)"

definition pushAdjacency :: "Cell \<Rightarrow> nat \<Rightarrow> long \<Rightarrow> error + Cell" where
  "pushAdjacency cell face adjacency =
     bindE (findAdjacency cell face (long_to_int adjacency)) (\<lambda>pos.
       if pos \<ge> 0 then Inr cell
       else bindE (pushBackItem (m_adjacencies cell) face adjacency) (\<lambda>runs.
              Inr (cell\<lparr>m_adjacencies := runs\<rparr>)))"

definition pushInterface :: "Cell \<Rightarrow> nat \<Rightarrow> long \<Rightarrow> error + Cell" where
  "pushInterface cell face interface =
     bindE (findInterface cell face (long_to_int interface)) (\<lambda>pos.
       if pos \<ge> 0 then Inr cell
       else bindE (pushBackItem (m_cell_interfaces cell) face interface) (\<lambda>runs.
              Inr (cell\<lparr>m_cell_interfaces := runs\<rparr>)))"

definition deleteAdjacency :: "Cell \<Rightarrow> nat \<Rightarrow> int \<Rightarrow> error + Cell" where
  "deleteAdjacency cell face i =
     bindE (eraseItem (m_adjacencies cell) face i) (\<lambda>runs. Inr (cell\<lparr>m_adjacencies := runs\<rparr>))"

definition deleteInterface :: "Cell \<Rightarrow> nat \<Rightarrow> int \<Rightarrow> error + Cell" where
  "deleteInterface cell face i =
     bindE (eraseItem (m_cell_interfaces cell) face i) (\<lambda>runs.
       Inr (cell\<lparr>m_cell_interfaces := runs\<rparr>))"

text \<open>\<open>getInterfaces()\<close> with \<open>getInterfaceCount()\<close>: all the runs, back to back.\<close>

definition getInterfaces :: "Cell \<Rightarrow> long list" where
  "getInterfaces cell = concat (m_cell_interfaces cell)"

text \<open>\<open>resetAdjacencies()\<close> gives the cell one empty run per face; an octree cell has
  \<open>2 * dimension\<close> faces.\<close>

definition resetAdjacencies :: "nat \<Rightarrow> Cell \<Rightarrow> Cell" where
  "resetAdjacencies nFaces cell = cell\<lparr>m_adjacencies := replicate nFaces []\<rparr>"

subsection \<open>Cells and octants\<close>

definition getOctantId :: "VolOctree \<Rightarrow> OctantInfo \<Rightarrow> long" where
  "getOctantId p octantInfo =
     (if oi_internal octantInfo
      then (case m_octantToCell p (oi_id octantInfo) of None \<Rightarrow> NULL_ID | Some c \<Rightarrow> c)
      else (case m_ghostToCell p (oi_id octantInfo) of None \<Rightarrow> NULL_ID | Some c \<Rightarrow> c))"

definition OctantInfo_of :: "nat \<Rightarrow> bool \<Rightarrow> OctantInfo" where
  "OctantInfo_of i internal = \<lparr>oi_id = i, oi_internal = internal\<rparr>"

text \<open>\<open>m_cells[id]\<close>, unchecked, and the write back of a cell changed through the
  reference.\<close>

definition cellRef :: "VolOctree \<Rightarrow> long \<Rightarrow> error + Cell" where
  "cellRef p ident = (case m_cells p ident of None \<Rightarrow> Inl UndefinedBehaviour | Some c \<Rightarrow> Inr c)"

definition setCell :: "long \<Rightarrow> Cell \<Rightarrow> VolOctree \<Rightarrow> VolOctree" where
  "setCell ident cell p = p\<lparr>m_cells := (m_cells p)(ident \<mapsto> cell)\<rparr>"

subsection \<open>updateAdjacencies\<close>

text \<open>
  The innermost loop of \<open>updateAdjacencies\<close>, over the neighbours found across one face:
  push the neighbour on the cell's face, push the cell on the neighbour's opposite face,
  and record the neighbour's face as processed.
\<close>

fun updateAdjacencies_neighs ::
  "long \<Rightarrow> nat \<Rightarrow> (nat \<times> bool) list \<Rightarrow> VolOctree \<times> (long \<times> nat) list
     \<Rightarrow> error + VolOctree \<times> (long \<times> nat) list" where
  "updateAdjacencies_neighs cellId face [] (p, processedFaces) = Inr (p, processedFaces)"
| "updateAdjacencies_neighs cellId face ((neighTreeId, neighGhostFlag) # rest) (p, processedFaces) =
     (let neighId = getOctantId p (OctantInfo_of neighTreeId (\<not> neighGhostFlag))
      in bindE (cellRef p cellId) (\<lambda>cell.
         bindE (pushAdjacency cell face neighId) (\<lambda>cell.
           let p = setCell cellId cell p;
               neighFace = tree_oppface (m_tree p) face
           in bindE (cellRef p neighId) (\<lambda>neigh.
              bindE (pushAdjacency neigh neighFace cellId) (\<lambda>neigh.
                updateAdjacencies_neighs cellId face rest
                  (setCell neighId neigh p, processedFaces @ [(neighId, neighFace)]))))))"

text \<open>The loop over the faces of one cell: a face already processed from the other side
  is skipped.\<close>

fun updateAdjacencies_faces ::
  "long \<Rightarrow> OctantInfo \<Rightarrow> nat list \<Rightarrow> VolOctree \<times> (long \<times> nat) list
     \<Rightarrow> error + VolOctree \<times> (long \<times> nat) list" where
  "updateAdjacencies_faces cellId octantInfo [] st = Inr st"
| "updateAdjacencies_faces cellId octantInfo (face # faces) (p, processedFaces) =
     (if (cellId, face) \<in> set processedFaces
      then updateAdjacencies_faces cellId octantInfo faces (p, processedFaces)
      else (let neighs = (if oi_internal octantInfo
                          then tree_findNeighbours (m_tree p) (oi_id octantInfo) face
                          else tree_findGhostNeighbours (m_tree p) (oi_id octantInfo) face)
            in bindE (updateAdjacencies_neighs cellId face neighs (p, processedFaces))
                 (updateAdjacencies_faces cellId octantInfo faces)))"

text \<open>The loop over the cells of one level.\<close>

fun updateAdjacencies_cells ::
  "nat \<Rightarrow> long list \<Rightarrow> VolOctree \<times> (long \<times> nat) list \<Rightarrow> error + VolOctree \<times> (long \<times> nat) list" where
  "updateAdjacencies_cells nCellFaces [] st = Inr st"
| "updateAdjacencies_cells nCellFaces (cellId # cellIds) (p, processedFaces) =
     bindE (cellRef p cellId) (\<lambda>cell.
     bindE (getCellOctant p cellId) (\<lambda>octantInfo.
     bindE (updateAdjacencies_faces cellId octantInfo [0..<nCellFaces] (p, processedFaces))
       (updateAdjacencies_cells nCellFaces cellIds)))"

text \<open>The loop over the levels \<open>0, \<dots>, maxLevel\<close>, each with its list of cells.\<close>

fun updateAdjacencies_levels ::
  "nat \<Rightarrow> long list list \<Rightarrow> VolOctree \<times> (long \<times> nat) list \<Rightarrow> error + VolOctree \<times> (long \<times> nat) list" where
  "updateAdjacencies_levels nCellFaces [] st = Inr st"
| "updateAdjacencies_levels nCellFaces (levelCells # levels) st =
     bindE (updateAdjacencies_cells nCellFaces levelCells st)
       (updateAdjacencies_levels nCellFaces levels)"

text \<open>Sorting the cells by level: \<open>hierarchicalCellIds[cellLevel].push_back(cellId)\<close>; a
  level above \<open>maxLevel\<close> is a subscript outside the vector.\<close>

fun sortByLevel :: "VolOctree \<Rightarrow> long list \<Rightarrow> long list list \<Rightarrow> error + long list list" where
  "sortByLevel p [] hierarchicalCellIds = Inr hierarchicalCellIds"
| "sortByLevel p (cellId # cellIds) hierarchicalCellIds =
     bindE (getCellLevel p cellId) (\<lambda>cellLevel.
       if cellLevel < length hierarchicalCellIds
       then sortByLevel p cellIds
              (hierarchicalCellIds[cellLevel := hierarchicalCellIds ! cellLevel @ [cellId]])
       else Inl UndefinedBehaviour)"

fun resetAdjacencies_all :: "nat \<Rightarrow> long list \<Rightarrow> VolOctree \<Rightarrow> error + VolOctree" where
  "resetAdjacencies_all nFaces [] p = Inr p"
| "resetAdjacencies_all nFaces (cellId # cellIds) p =
     bindE (cellRef p cellId) (\<lambda>cell.
       resetAdjacencies_all nFaces cellIds (setCell cellId (resetAdjacencies nFaces cell) p))"

text \<open>
  \<open>updateAdjacencies\<close>.  The line \<^verbatim>\<open>averageSize = cellIds.size() / maxLevel\<close> divides
  by the current depth of the octree, which is 0 for an octree that is only its root.
\<close>

definition updateAdjacencies :: "VolOctree \<Rightarrow> long list \<Rightarrow> bool \<Rightarrow> error + VolOctree" where
  "updateAdjacencies p cellIds reset =
     (let nCellFaces = 2 * dimension p
      in bindE (if reset then resetAdjacencies_all nCellFaces cellIds p else Inr p) (\<lambda>p.
         let maxLevel = tree_maxDepth (m_tree p)
         in if maxLevel = 0 then Inl UndefinedBehaviour
            else bindE (sortByLevel p cellIds (replicate (maxLevel + 1) [])) (\<lambda>hierarchicalCellIds.
                 bindE (updateAdjacencies_levels nCellFaces hierarchicalCellIds (p, []))
                   (\<lambda>st. Inr (fst st)))))"

subsection \<open>Adaption records\<close>

datatype adaption_Type =
  TYPE_NONE | TYPE_CREATION | TYPE_DELETION | TYPE_REFINEMENT | TYPE_COARSENING
  | TYPE_RENUMBERING | TYPE_PARTITION_SEND | TYPE_PARTITION_RECV

datatype adaption_Entity = ENTITY_VERTEX | ENTITY_CELL | ENTITY_INTERFACE

record adaption_Info =
  info_type :: adaption_Type
  info_entity :: adaption_Entity
  info_rank :: int
  info_previous :: "long list"
  info_current :: "long list"

record RenumberInfo =
  ri_cellId :: long
  ri_newTreeId :: nat

record DeleteInfo =
  di_cellId :: long
  di_trigger :: adaption_Type
  di_rank :: int

text \<open>Modelled from the spec: the element registry is not in the sources.  Of an element
  type the patch reads the vertex count and, for each face, the local indices of the
  face's vertices.\<close>

record ElementInfo =
  nVertices :: nat
  faceConnect :: "nat list list"

subsection \<open>deleteCells\<close>

text \<open>
  Modelled from the spec: \<open>deleteCell\<close>, \<open>deleteInterface\<close> and \<open>deleteVertex\<close> of the patch
  kernel are not in the sources; with the flags \<open>deleteCells\<close> passes they take the
  element out of its container.  \<open>flush\<close> compacts the storage and keeps every id.
\<close>

definition deleteCell :: "long \<Rightarrow> VolOctree \<Rightarrow> VolOctree" where
  "deleteCell ident p = p\<lparr>m_cells := (m_cells p)(ident := None)\<rparr>"

definition deleteInterfaces_all :: "long list \<Rightarrow> VolOctree \<Rightarrow> VolOctree" where
  "deleteInterfaces_all ids p =
     p\<lparr>m_interfaces := fold (\<lambda>i m. m(i := None)) ids (m_interfaces p)\<rparr>"

definition deleteVertices_all :: "long list \<Rightarrow> VolOctree \<Rightarrow> VolOctree" where
  "deleteVertices_all ids p =
     p\<lparr>m_vertices := fold (\<lambda>v m. m(v := None)) ids (m_vertices p)\<rparr>"

text \<open>
  The sets \<open>deadCells\<close>, \<open>deadVertices\<close>, \<open>deadInterfaces\<close> and \<open>danglingCells\<close> are
  \<^verbatim>\<open>std::unordered_set\<close>s: lists without repetition here, walked in the order of the
  list (the standard leaves the order open).

  The loop over the interfaces of one dead cell.  An interface with a side that stays
  makes that side a dangling cell, and the interface and the dead neighbour are taken out
  of the runs of the dangling cell's face.
\<close>

definition danglingSide :: "long list \<Rightarrow> Interface \<Rightarrow> int" where
  "danglingSide deadCells interface =
     (if \<not> isBorder interface
      then (if m_owner interface \<notin> set deadCells then 0
            else if m_neigh interface \<notin> set deadCells then 1
            else - 1)
      else - 1)"

fun deleteCells_interfaces ::
  "long list \<Rightarrow> long list \<Rightarrow> VolOctree \<times> long list \<times> long list
     \<Rightarrow> error + VolOctree \<times> long list \<times> long list" where
  "deleteCells_interfaces deadCells [] st = Inr st"
| "deleteCells_interfaces deadCells (interfaceId # rest) (p, deadInterfaces, danglingCells) =
     (if interfaceId < 0 then deleteCells_interfaces deadCells rest (p, deadInterfaces, danglingCells)
      else if interfaceId \<in> set deadInterfaces
      then deleteCells_interfaces deadCells rest (p, deadInterfaces, danglingCells)
      else (case m_interfaces p interfaceId of
              None \<Rightarrow> Inl UndefinedBehaviour
            | Some interface \<Rightarrow>
                if danglingSide deadCells interface \<ge> 0
                then (let danglingCellId =
                            (if danglingSide deadCells interface = 0
                             then m_owner interface else m_neigh interface);
                          danglingNeighId =
                            (if danglingSide deadCells interface = 0
                             then m_neigh interface else m_owner interface);
                          danglingCellFace =
                            (if danglingSide deadCells interface = 0
                             then m_ownerFace interface else m_neighFace interface)
                      in bindE (cellRef p danglingCellId) (\<lambda>danglingCell.
                         bindE (findInterface danglingCell danglingCellFace (long_to_int interfaceId))
                           (\<lambda>cellInterfaceIndex.
                         bindE (deleteInterface danglingCell danglingCellFace cellInterfaceIndex)
                           (\<lambda>danglingCell.
                         bindE (findAdjacency danglingCell danglingCellFace (long_to_int danglingNeighId))
                           (\<lambda>cellAdjacencyIndex.
                         bindE (deleteAdjacency danglingCell danglingCellFace cellAdjacencyIndex)
                           (\<lambda>danglingCell.
                           deleteCells_interfaces deadCells rest
                             (setCell danglingCellId danglingCell p,
                              deadInterfaces @ [interfaceId],
                              List.insert danglingCellId danglingCells)))))))
                else deleteCells_interfaces deadCells rest
                       (p, deadInterfaces @ [interfaceId], danglingCells)))"

text \<open>The loop over the dead cells: list the vertices, treat the interfaces, delete the
  cell.\<close>

fun deleteCells_cells ::
  "long list \<Rightarrow> long list \<Rightarrow> VolOctree \<times> long list \<times> long list \<times> long list
     \<Rightarrow> error + VolOctree \<times> long list \<times> long list \<times> long list" where
  "deleteCells_cells deadCells [] st = Inr st"
| "deleteCells_cells deadCells (cellId # rest) (p, deadVertices, deadInterfaces, danglingCells) =
     bindE (cellRef p cellId) (\<lambda>cell.
     bindE (deleteCells_interfaces deadCells (getInterfaces cell) (p, deadInterfaces, danglingCells))
       (\<lambda>(p, deadInterfaces, danglingCells).
          deleteCells_cells deadCells rest
            (deleteCell cellId p, fold List.insert (m_connect cell) deadVertices,
             deadInterfaces, danglingCells)))"

text \<open>
  Keeping vertices: for each listed local index \<open>k\<close> of a cell, the vertex
  \<open>connect[k]\<close> enters the stitching map under the Morton key of the octant's node \<open>k\<close>
  (an \<open>insert\<close>, which keeps an entry already there) and leaves \<open>deadVertices\<close>.
\<close>

fun keepVerticesOf ::
  "PabloUniform \<Rightarrow> OctantInfo \<Rightarrow> long list \<Rightarrow> nat list \<Rightarrow> (nat \<rightharpoonup> long) \<times> long list
     \<Rightarrow> error + (nat \<rightharpoonup> long) \<times> long list" where
  "keepVerticesOf tree octantInfo cellConnect [] st = Inr st"
| "keepVerticesOf tree octantInfo cellConnect (k # ks) (stitchVertices, deadVertices) =
     bindE (subscript cellConnect k) (\<lambda>vertexId.
       let vertexTreeMorton = tree_nodeMorton tree (oi_internal octantInfo) (oi_id octantInfo) k
       in keepVerticesOf tree octantInfo cellConnect ks
            (if stitchVertices vertexTreeMorton = None
             then stitchVertices(vertexTreeMorton \<mapsto> vertexId) else stitchVertices,
             removeAll vertexId deadVertices))"

text \<open>The interfaces a dangling cell is left with: the vertices of the owner's face are
  kept as well.\<close>

fun deleteCells_keepInterfaces ::
  "ElementInfo \<Rightarrow> ElementInfo \<Rightarrow> VolOctree \<Rightarrow> long list \<Rightarrow> (nat \<rightharpoonup> long) \<times> long list
     \<Rightarrow> error + (nat \<rightharpoonup> long) \<times> long list" where
  "deleteCells_keepInterfaces cellTypeInfo interfaceTypeInfo p [] st = Inr st"
| "deleteCells_keepInterfaces cellTypeInfo interfaceTypeInfo p (interfaceId # rest) st =
     (if interfaceId < 0 then deleteCells_keepInterfaces cellTypeInfo interfaceTypeInfo p rest st
      else (case m_interfaces p interfaceId of
              None \<Rightarrow> Inl UndefinedBehaviour
            | Some interface \<Rightarrow>
                if isBorder interface
                then deleteCells_keepInterfaces cellTypeInfo interfaceTypeInfo p rest st
                else bindE (cellRef p (m_owner interface)) (\<lambda>ownerCell.
                     bindE (getCellOctant p (m_owner interface)) (\<lambda>ownerOctantInfo.
                     bindE (subscript (faceConnect cellTypeInfo) (m_ownerFace interface))
                       (\<lambda>localFaceConnect.
                       if nVertices interfaceTypeInfo \<le> length localFaceConnect
                       then bindE (keepVerticesOf (m_tree p) ownerOctantInfo (m_connect ownerCell)
                                     (take (nVertices interfaceTypeInfo) localFaceConnect) st)
                              (deleteCells_keepInterfaces cellTypeInfo interfaceTypeInfo p rest)
                       else Inl UndefinedBehaviour)))))"

text \<open>The loop over the dangling cells.\<close>

fun deleteCells_dangling ::
  "ElementInfo \<Rightarrow> ElementInfo \<Rightarrow> VolOctree \<Rightarrow> long list \<Rightarrow> (nat \<rightharpoonup> long) \<times> long list
     \<Rightarrow> error + (nat \<rightharpoonup> long) \<times> long list" where
  "deleteCells_dangling cellTypeInfo interfaceTypeInfo p [] st = Inr st"
| "deleteCells_dangling cellTypeInfo interfaceTypeInfo p (cellId # rest) st =
     bindE (cellRef p cellId) (\<lambda>cell.
     bindE (getCellOctant p cellId) (\<lambda>octantInfo.
     bindE (keepVerticesOf (m_tree p) octantInfo (m_connect cell) [0..<nVertices cellTypeInfo] st)
       (\<lambda>st.
     bindE (deleteCells_keepInterfaces cellTypeInfo interfaceTypeInfo p (getInterfaces cell) st)
       (deleteCells_dangling cellTypeInfo interfaceTypeInfo p rest))))"

text \<open>\<open>deleteCells\<close> returns the stitching map and the patch without the dead cells, the
  dead interfaces and the dead vertices.\<close>

definition deleteCells ::
  "ElementInfo \<Rightarrow> ElementInfo \<Rightarrow> VolOctree \<Rightarrow> DeleteInfo list
     \<Rightarrow> error + (nat \<rightharpoonup> long) \<times> VolOctree" where
  "deleteCells cellTypeInfo interfaceTypeInfo p deletedOctants =
     (let deadCells = remdups (map di_cellId deletedOctants)
      in bindE (deleteCells_cells deadCells deadCells (p, [], [], []))
           (\<lambda>(p, deadVertices, deadInterfaces, danglingCells).
              let p = deleteInterfaces_all deadInterfaces p
              in bindE (deleteCells_dangling cellTypeInfo interfaceTypeInfo p danglingCells
                          (Map.empty, deadVertices))
                   (\<lambda>(stitchVertices, deadVertices).
                      Inr (stitchVertices, deleteVertices_all deadVertices p))))"

subsection \<open>The collection of adaption records\<close>

text \<open>
  Modelled from the spec: the collection class (\<open>adaption::InfoCollection\<close>) is not in the
  sources.  A record is \<open>{type, entity, rank, previous_ids, current_ids}\<close>.  \<open>sync\<close> appends
  one id per deleted cell to the record that \<open>create\<close> returns and sorts the ids of a
  send record afterwards, so for deletions, creations, sends and receives \<open>create\<close> hands
  back the record already open for the same type, entity and rank; otherwise it opens a
  new record at the end.  It returns the position of the record.
\<close>

definition cachedType :: "adaption_Type \<Rightarrow> bool" where
  "cachedType t =
     (t = TYPE_DELETION \<or> t = TYPE_CREATION \<or> t = TYPE_PARTITION_SEND \<or> t = TYPE_PARTITION_RECV)"

primrec findInfo ::
  "adaption_Info list \<Rightarrow> adaption_Type \<Rightarrow> adaption_Entity \<Rightarrow> int \<Rightarrow> nat \<Rightarrow> nat option" where
  "findInfo [] t e r i = None"
| "findInfo (x # xs) t e r i =
     (if info_type x = t \<and> info_entity x = e \<and> info_rank x = r then Some i
      else findInfo xs t e r (i + 1))"

definition newInfo :: "adaption_Type \<Rightarrow> adaption_Entity \<Rightarrow> int \<Rightarrow> adaption_Info" where
  "newInfo t e r =
     \<lparr>info_type = t, info_entity = e, info_rank = r, info_previous = [], info_current = []\<rparr>"

definition create ::
  "adaption_Info list \<Rightarrow> adaption_Type \<Rightarrow> adaption_Entity \<Rightarrow> int \<Rightarrow> nat \<times> adaption_Info list" where
  "create adaptionData t e r =
     (if cachedType t
      then (case findInfo adaptionData t e r 0 of
              Some i \<Rightarrow> (i, adaptionData)
            | None \<Rightarrow> (length adaptionData, adaptionData @ [newInfo t e r]))
      else (length adaptionData, adaptionData @ [newInfo t e r]))"

definition addPrevious :: "nat \<Rightarrow> long list \<Rightarrow> adaption_Info list \<Rightarrow> adaption_Info list" where
  "addPrevious i ids adaptionData =
     adaptionData[i := (adaptionData ! i)\<lparr>info_previous := info_previous (adaptionData ! i) @ ids\<rparr>]"

definition addCurrent :: "nat \<Rightarrow> long list \<Rightarrow> adaption_Info list \<Rightarrow> adaption_Info list" where
  "addCurrent i ids adaptionData =
     adaptionData[i := (adaptionData ! i)\<lparr>info_current := info_current (adaptionData ! i) @ ids\<rparr>]"

subsection \<open>sync: the loop over the octants\<close>

text \<open>
  The model is the build without MPI (\<^verbatim>\<open>BITPIT_ENABLE_MPI\<close> not 1): \<open>currentRank\<close> is -1,
  there is no classification after a load balance, and the blocks on sent octants and
  on ghosts are compiled out.  A \<open>DeleteInfo\<close> built without a rank carries -1.
\<close>

definition currentRank :: int where
  "currentRank = - 1"

record SyncLists =
  unmappedOctants :: "bool list"
  addedOctants :: "OctantInfo list"
  renumberedOctants :: "RenumberInfo list"
  deletedOctants :: "DeleteInfo list"
  adaptionData :: "adaption_Info list"

text \<open>The adaption type of the octant \<open>treeId\<close>; \<open>mapper\<close> is its mapping.  \<open>front()\<close> of an
  empty mapping is undefined.\<close>

definition classify ::
  "VolOctree \<Rightarrow> bool \<Rightarrow> nat \<Rightarrow> (nat \<times> bool \<times> int) list \<Rightarrow> error + adaption_Type" where
  "classify p importAll treeId mapper =
     (if importAll then Inr TYPE_CREATION
      else if m_lastTreeOperation p = OP_ADAPTION_MAPPED
      then (if tree_isNewR (m_tree p) treeId then Inr TYPE_REFINEMENT
            else if tree_isNewC (m_tree p) treeId then Inr TYPE_COARSENING
            else (case mapper of
                    [] \<Rightarrow> Inl UndefinedBehaviour
                  | front # _ \<Rightarrow>
                      if treeId \<noteq> fst front then Inr TYPE_RENUMBERING else Inr TYPE_NONE))
      else Inr TYPE_NONE)"

text \<open>\<open>unmappedOctants[i] = false\<close>, unchecked.\<close>

definition clearFlag :: "bool list \<Rightarrow> nat \<Rightarrow> error + bool list" where
  "clearFlag flags i = (if i < length flags then Inr (flags[i := False]) else Inl UndefinedBehaviour)"

text \<open>Marking the previous octants of the mapping for deletion.\<close>

fun markDeleted ::
  "VolOctree \<Rightarrow> adaption_Type \<Rightarrow> (nat \<times> bool \<times> int) list \<Rightarrow> DeleteInfo list \<times> bool list
     \<Rightarrow> error + DeleteInfo list \<times> bool list" where
  "markDeleted p adaptionType [] st = Inr st"
| "markDeleted p adaptionType ((previousTreeId, ghostFlag, rank) # rest) (deleted, unmapped) =
     (let cellId = getOctantId p (OctantInfo_of previousTreeId (\<not> ghostFlag))
      in bindE (clearFlag unmapped previousTreeId) (\<lambda>unmapped.
           markDeleted p adaptionType rest
             (deleted @ [\<lparr>di_cellId = cellId, di_trigger = adaptionType, di_rank = - 1\<rparr>],
              unmapped)))"

text \<open>The adaption record of one import: the tree ids just added as current ids (they are
  translated to cell ids at the end of \<open>sync\<close>), the cells of the mapping as previous ids.\<close>

definition trackImport ::
  "VolOctree \<Rightarrow> adaption_Type \<Rightarrow> nat \<Rightarrow> OctantInfo list \<Rightarrow> (nat \<times> bool \<times> int) list
     \<Rightarrow> adaption_Info list \<Rightarrow> adaption_Info list" where
  "trackImport p adaptionType nCurrentTreeIds added mapper data =
     (let (infoId, data) = create data adaptionType ENTITY_CELL currentRank;
          data = addCurrent infoId
                   (map (\<lambda>octantInfo. int (oi_id octantInfo))
                      (drop (length added - nCurrentTreeIds) added)) data
      in addPrevious infoId
           (map (\<lambda>(previousTreeId, ghostFlag, rank).
                   getOctantId p (OctantInfo_of previousTreeId (\<not> ghostFlag))) mapper) data)"

text \<open>One pass through the body of the loop: the tree id to go on with, and the lists.\<close>

definition sync_step ::
  "VolOctree \<Rightarrow> bool \<Rightarrow> bool \<Rightarrow> nat \<Rightarrow> SyncLists \<Rightarrow> error + nat \<times> SyncLists" where
  "sync_step p importAll trackChanges treeId st =
     (let mapper = (if \<not> importAll then tree_mapping (m_tree p) treeId else [])
      in bindE (classify p importAll treeId mapper) (\<lambda>adaptionType.
         if adaptionType = TYPE_NONE
         then bindE (clearFlag (unmappedOctants st) treeId) (\<lambda>unmapped.
                Inr (treeId + 1, st\<lparr>unmappedOctants := unmapped\<rparr>))
         else if adaptionType = TYPE_RENUMBERING
         then (case mapper of
                 [] \<Rightarrow> Inl UndefinedBehaviour
               | (previousTreeId, ghostFlag, rank) # _ \<Rightarrow>
                   (let cellId = getOctantId p (OctantInfo_of previousTreeId (\<not> ghostFlag))
                    in bindE (clearFlag (unmappedOctants st) previousTreeId) (\<lambda>unmapped.
                         Inr (treeId + 1,
                              st\<lparr>renumberedOctants :=
                                    renumberedOctants st
                                      @ [\<lparr>ri_cellId = cellId, ri_newTreeId = treeId\<rparr>],
                                  unmappedOctants := unmapped\<rparr>))))
         else (let nCurrentTreeIds =
                     (if importAll then tree_numOctants (m_tree p) - treeId
                      else if adaptionType = TYPE_REFINEMENT then 2 ^ dimension p
                      else 1);
                   added = addedOctants st
                             @ map (\<lambda>currentTreeId. OctantInfo_of currentTreeId True)
                                 [treeId..<treeId + nCurrentTreeIds]
               in bindE (markDeleted p adaptionType mapper (deletedOctants st, unmappedOctants st))
                    (\<lambda>(deleted, unmapped).
                       Inr (treeId + nCurrentTreeIds,
                            st\<lparr>addedOctants := added, deletedOctants := deleted,
                               unmappedOctants := unmapped,
                               adaptionData :=
                                 (if trackChanges
                                  then trackImport p adaptionType nCurrentTreeIds added mapper
                                         (adaptionData st)
                                  else adaptionData st)\<rparr>)))))"

function sync_octants ::
  "VolOctree \<Rightarrow> bool \<Rightarrow> bool \<Rightarrow> nat \<Rightarrow> SyncLists \<Rightarrow> error + SyncLists" where
  "sync_octants p importAll trackChanges treeId st =
     (if treeId < tree_numOctants (m_tree p)
      then (case sync_step p importAll trackChanges treeId st of
              Inl err \<Rightarrow> Inl err
            | Inr (treeId', st') \<Rightarrow> sync_octants p importAll trackChanges treeId' st')
      else Inr st)"
  by pat_completeness auto
termination
proof (relation "measure (\<lambda>(p, importAll, trackChanges, treeId, st). tree_numOctants (m_tree p) - treeId)")
  show "wf (measure (\<lambda>(p, importAll, trackChanges, treeId, st). tree_numOctants (m_tree p) - treeId))"
    by simp
next
  fix p importAll trackChanges treeId st x2 treeId' st'
  assume less: "treeId < tree_numOctants (m_tree p)"
    and step: "sync_step p importAll trackChanges treeId st = Inr x2"
    and x2: "(treeId', st') = x2"
  obtain t where c: "classify p importAll treeId
      (if \<not> importAll then tree_mapping (m_tree p) treeId else []) = Inr t"
    using step by (cases "classify p importAll treeId
      (if \<not> importAll then tree_mapping (m_tree p) treeId else [])") (simp_all add: sync_step_def)
  have "treeId < treeId'"
    using less step x2 [symmetric] c
    by (auto simp: sync_step_def Let_def split: if_splits list.splits sum.splits prod.splits
        elim!: bindE.elims)
  with less
  show "((p, importAll, trackChanges, treeId', st'), (p, importAll, trackChanges, treeId, st))
          \<in> measure (\<lambda>(p, importAll, trackChanges, treeId, st). tree_numOctants (m_tree p) - treeId)"
    by simp
qed

text \<open>Previous octants that no post-adaption octant maps to are deleted.\<close>

definition removeUnmapped :: "VolOctree \<Rightarrow> nat \<Rightarrow> SyncLists \<Rightarrow> SyncLists" where
  "removeUnmapped p nPreviousOctants st =
     st\<lparr>deletedOctants :=
          deletedOctants st
            @ map (\<lambda>previousTreeId.
                     \<lparr>di_cellId = getOctantId p (OctantInfo_of previousTreeId True),
                      di_trigger = TYPE_DELETION, di_rank = - 1\<rparr>)
                (filter (\<lambda>previousTreeId. unmappedOctants st ! previousTreeId)
                   [0..<nPreviousOctants])\<rparr>"

subsection \<open>resetCellOctantMaps\<close>

fun resetMaps_deleted :: "DeleteInfo list \<Rightarrow> VolOctree \<Rightarrow> error + VolOctree" where
  "resetMaps_deleted [] p = Inr p"
| "resetMaps_deleted (deleteInfo # rest) p =
     bindE (cellRef p (di_cellId deleteInfo)) (\<lambda>cell.
       if \<not> m_interior cell then resetMaps_deleted rest p
       else bindE (getCellOctant p (di_cellId deleteInfo)) (\<lambda>octantInfo.
              resetMaps_deleted rest
                (p\<lparr>m_cellToOctant := (m_cellToOctant p)(di_cellId deleteInfo := None),
                   m_octantToCell := (m_octantToCell p)(oi_id octantInfo := None)\<rparr>)))"

fun resetMaps_unlink :: "RenumberInfo list \<Rightarrow> VolOctree \<Rightarrow> error + VolOctree" where
  "resetMaps_unlink [] p = Inr p"
| "resetMaps_unlink (renumberInfo # rest) p =
     bindE (cellRef p (ri_cellId renumberInfo)) (\<lambda>cell.
       if \<not> m_interior cell then resetMaps_unlink rest p
       else bindE (getCellOctant p (ri_cellId renumberInfo)) (\<lambda>previousOctantInfo.
              resetMaps_unlink rest
                (p\<lparr>m_octantToCell := (m_octantToCell p)(oi_id previousOctantInfo := None)\<rparr>)))"

fun resetMaps_relink :: "RenumberInfo list \<Rightarrow> VolOctree \<Rightarrow> error + VolOctree" where
  "resetMaps_relink [] p = Inr p"
| "resetMaps_relink (renumberInfo # rest) p =
     bindE (cellRef p (ri_cellId renumberInfo)) (\<lambda>cell.
       if \<not> m_interior cell then resetMaps_relink rest p
       else resetMaps_relink rest
              (p\<lparr>m_cellToOctant := (m_cellToOctant p)(ri_cellId renumberInfo \<mapsto> ri_newTreeId renumberInfo),
                 m_octantToCell := (m_octantToCell p)(ri_newTreeId renumberInfo \<mapsto> ri_cellId renumberInfo)\<rparr>))"

text \<open>\<open>insert\<close> on an \<^verbatim>\<open>unordered_map\<close> leaves an entry that is already there.\<close>

definition map_insert :: "('k \<rightharpoonup> 'v) \<Rightarrow> 'k \<Rightarrow> 'v \<Rightarrow> ('k \<rightharpoonup> 'v)" where
  "map_insert m k v = (if m k = None then m(k \<mapsto> v) else m)"

definition generateCellId :: "VolOctree \<Rightarrow> long \<times> VolOctree" where
  "generateCellId p = (m_cellIdGenerator p, p\<lparr>m_cellIdGenerator := m_cellIdGenerator p + 1\<rparr>)"

fun resetMaps_added :: "OctantInfo list \<Rightarrow> VolOctree \<Rightarrow> VolOctree" where
  "resetMaps_added [] p = p"
| "resetMaps_added (octantInfo # rest) p =
     (let (cellId, p) = generateCellId p
      in resetMaps_added rest
           (if oi_internal octantInfo
            then p\<lparr>m_cellToOctant := map_insert (m_cellToOctant p) cellId (oi_id octantInfo),
                   m_octantToCell := map_insert (m_octantToCell p) (oi_id octantInfo) cellId\<rparr>
            else p\<lparr>m_cellToGhost := map_insert (m_cellToGhost p) cellId (oi_id octantInfo),
                   m_ghostToCell := map_insert (m_ghostToCell p) (oi_id octantInfo) cellId\<rparr>))"

definition resetCellOctantMaps ::
  "VolOctree \<Rightarrow> DeleteInfo list \<Rightarrow> RenumberInfo list \<Rightarrow> OctantInfo list \<Rightarrow> error + VolOctree" where
  "resetCellOctantMaps p deleted renumbered added =
     (let p = p\<lparr>m_cellToGhost := Map.empty, m_ghostToCell := Map.empty\<rparr>
      in bindE (resetMaps_deleted deleted p) (\<lambda>p.
         bindE (resetMaps_unlink renumbered p) (\<lambda>p.
         bindE (resetMaps_relink renumbered p) (\<lambda>p.
           Inr (resetMaps_added added p)))))"

subsection \<open>importCells\<close>

fun mapE :: "('a \<Rightarrow> error + 'b) \<Rightarrow> 'a list \<Rightarrow> error + 'b list" where
  "mapE f [] = Inr []"
| "mapE f (x # xs) = bindE (f x) (\<lambda>y. bindE (mapE f xs) (\<lambda>ys. Inr (y # ys)))"

text \<open>
  Modelled from the spec: \<open>addVertex\<close> and \<open>addCell\<close> of the patch kernel are not in the
  sources.  \<open>addVertex\<close> stores the point under a fresh vertex id; \<open>addCell\<close> stores, under
  the id it is given, a cell with the connectivity and one empty run per face for the
  interfaces and for the adjacencies.
\<close>

definition addVertex :: "array3D \<Rightarrow> VolOctree \<Rightarrow> long \<times> VolOctree" where
  "addVertex coords p =
     (m_vertexIdGenerator p,
      p\<lparr>m_vertices := (m_vertices p)(m_vertexIdGenerator p \<mapsto> coords),
        m_vertexIdGenerator := m_vertexIdGenerator p + 1\<rparr>)"

definition addCell :: "bool \<Rightarrow> long list \<Rightarrow> long \<Rightarrow> VolOctree \<Rightarrow> VolOctree" where
  "addCell interior cellConnect cellId p =
     p\<lparr>m_cells := (m_cells p)(cellId \<mapsto>
          \<lparr>m_interior = interior, m_connect = cellConnect,
           m_cell_interfaces = replicate (2 * dimension p) [],
           m_adjacencies = replicate (2 * dimension p) []\<rparr>)\<rparr>"

text \<open>The vertices of one octant: a node whose Morton key the stitching map does not
  know gets a new vertex.\<close>

fun importCells_nodes ::
  "OctantInfo \<Rightarrow> nat list \<Rightarrow> VolOctree \<times> (nat \<rightharpoonup> long) \<Rightarrow> VolOctree \<times> (nat \<rightharpoonup> long)" where
  "importCells_nodes octantInfo [] st = st"
| "importCells_nodes octantInfo (k # ks) (p, stitchInfo) =
     (let vertexTreeMorton = tree_nodeMorton (m_tree p) (oi_internal octantInfo) (oi_id octantInfo) k
      in if stitchInfo vertexTreeMorton = None
         then (let nodeCoords = tree_node (m_tree p) (oi_internal octantInfo) (oi_id octantInfo) k;
                   (vertexId, p) = addVertex nodeCoords p
               in importCells_nodes octantInfo ks (p, stitchInfo(vertexTreeMorton \<mapsto> vertexId)))
         else importCells_nodes octantInfo ks (p, stitchInfo))"

fun importCells_vertices ::
  "nat \<Rightarrow> OctantInfo list \<Rightarrow> VolOctree \<times> (nat \<rightharpoonup> long) \<Rightarrow> VolOctree \<times> (nat \<rightharpoonup> long)" where
  "importCells_vertices nCellVertices [] st = st"
| "importCells_vertices nCellVertices (octantInfo # rest) st =
     importCells_vertices nCellVertices rest (importCells_nodes octantInfo [0..<nCellVertices] st)"

fun importCells_cells ::
  "nat \<Rightarrow> (nat \<rightharpoonup> long) \<Rightarrow> OctantInfo list \<Rightarrow> VolOctree \<times> long list
     \<Rightarrow> error + VolOctree \<times> long list" where
  "importCells_cells nCellVertices stitchInfo [] st = Inr st"
| "importCells_cells nCellVertices stitchInfo (octantInfo # rest) (p, createdCells) =
     (let cellId = getOctantId p octantInfo
      in bindE (mapE (\<lambda>k. map_at stitchInfo
                              (tree_nodeMorton (m_tree p) (oi_internal octantInfo) (oi_id octantInfo) k))
                  [0..<nCellVertices])
           (\<lambda>cellConnect.
              importCells_cells nCellVertices stitchInfo rest
                (addCell (oi_internal octantInfo) cellConnect cellId p, createdCells @ [cellId])))"

text \<open>
  \<open>updateInterfaces\<close> is not in the sources.  It belongs to the patch kernel, which sees
  the cells and the interfaces and not the maps of the octree patch: the parameter takes
  the two containers and the created cells, and returns the containers or fails.
\<close>

type_synonym interfaceBuilder =
  "(long \<rightharpoonup> Cell) \<times> (long \<rightharpoonup> Interface) \<Rightarrow> long list
     \<Rightarrow> error + (long \<rightharpoonup> Cell) \<times> (long \<rightharpoonup> Interface)"

definition importCells ::
  "ElementInfo \<Rightarrow> interfaceBuilder \<Rightarrow> VolOctree \<Rightarrow> OctantInfo list \<Rightarrow> (nat \<rightharpoonup> long)
     \<Rightarrow> error + long list \<times> VolOctree" where
  "importCells cellTypeInfo updateInterfaces p octantInfoList stitchInfo =
     (let nCellVertices = nVertices cellTypeInfo;
          (p, stitchInfo) = importCells_vertices nCellVertices octantInfoList (p, stitchInfo)
      in bindE (importCells_cells nCellVertices stitchInfo octantInfoList (p, []))
           (\<lambda>(p, createdCells).
         bindE (updateAdjacencies p createdCells False) (\<lambda>p.
         bindE (updateInterfaces (m_cells p, m_interfaces p) createdCells) (\<lambda>(cells, interfaces).
           Inr (createdCells, p\<lparr>m_cells := cells, m_interfaces := interfaces\<rparr>)))))"

subsection \<open>sync and the update of the adaption\<close>

text \<open>Tracking the deleted cells: a record for each real deletion, and the interfaces of
  every deleted cell collected for the record of the deleted interfaces.\<close>

fun trackDeleted ::
  "VolOctree \<Rightarrow> DeleteInfo list \<Rightarrow> adaption_Info list \<times> long list
     \<Rightarrow> error + adaption_Info list \<times> long list" where
  "trackDeleted p [] st = Inr st"
| "trackDeleted p (deleteInfo # rest) (data, removedInterfaces) =
     (let data =
            (if di_trigger deleteInfo = TYPE_DELETION \<or> di_trigger deleteInfo = TYPE_PARTITION_SEND
             then (let (infoId, data) =
                         create data (di_trigger deleteInfo) ENTITY_CELL (di_rank deleteInfo)
                   in addPrevious infoId [di_cellId deleteInfo] data)
             else data)
      in bindE (map_at (m_cells p) (di_cellId deleteInfo)) (\<lambda>cell.
           trackDeleted p rest
             (data, fold List.insert (filter (\<lambda>i. i \<ge> 0) (getInterfaces cell)) removedInterfaces)))"

definition trackDeletion ::
  "VolOctree \<Rightarrow> DeleteInfo list \<Rightarrow> adaption_Info list \<Rightarrow> error + adaption_Info list" where
  "trackDeletion p deleted data =
     bindE (trackDeleted p deleted (data, [])) (\<lambda>(data, removedInterfaces).
       let (infoId, data) = create data TYPE_DELETION ENTITY_INTERFACE currentRank
       in Inr (addPrevious infoId removedInterfaces data))"

text \<open>At the end the current ids of the cell records, tree ids so far, are replaced by
  the ids of the cells now linked to those octants.\<close>

definition translateInfo :: "VolOctree \<Rightarrow> adaption_Info \<Rightarrow> error + adaption_Info" where
  "translateInfo p info =
     (if info_entity info \<noteq> ENTITY_CELL then Inr info
      else bindE (mapE (\<lambda>treeId. map_at (m_octantToCell p) (nat treeId)) (info_current info))
             (\<lambda>cellIds. Inr (info\<lparr>info_current := cellIds\<rparr>)))"

fun createdInterfacesOf :: "VolOctree \<Rightarrow> long list \<Rightarrow> long list \<Rightarrow> error + long list" where
  "createdInterfacesOf p [] createdInterfaces = Inr createdInterfaces"
| "createdInterfacesOf p (cellId # rest) createdInterfaces =
     bindE (map_at (m_cells p) cellId) (\<lambda>cell.
       createdInterfacesOf p rest
         (fold List.insert (filter (\<lambda>i. i \<ge> 0) (getInterfaces cell)) createdInterfaces))"

definition completeTracking ::
  "VolOctree \<Rightarrow> long list \<Rightarrow> adaption_Info list \<Rightarrow> error + adaption_Info list" where
  "completeTracking p createdCells data =
     bindE (mapE (translateInfo p) data) (\<lambda>data.
       if createdCells \<noteq> []
       then bindE (createdInterfacesOf p createdCells []) (\<lambda>createdInterfaces.
              let (infoId, data) = create data TYPE_CREATION ENTITY_INTERFACE currentRank
              in Inr (addCurrent infoId createdInterfaces data))
       else Inr data)"

text \<open>
  \<open>sync\<close> returns the adaption records and the patch.  The exception it throws after an
  unmapped adaption is \<open>RuntimeError\<close>.
\<close>

definition sync ::
  "ElementInfo \<Rightarrow> ElementInfo \<Rightarrow> interfaceBuilder \<Rightarrow> VolOctree \<Rightarrow> bool
     \<Rightarrow> error + adaption_Info list \<times> VolOctree" where
  "sync cellTypeInfo interfaceTypeInfo updateInterfaces p trackChanges =
     (let importAll = (getCellCount p = 0);
          lastTreeOperation = m_lastTreeOperation p
      in if lastTreeOperation = OP_ADAPTION_UNMAPPED \<and> \<not> importAll then Inl RuntimeError
         else
           (let nPreviousOctants = card (dom (m_octantToCell p));
                st = \<lparr>unmappedOctants = replicate nPreviousOctants True, addedOctants = [],
                      renumberedOctants = [], deletedOctants = [], adaptionData = []\<rparr>
            in bindE (sync_octants p importAll trackChanges 0 st) (\<lambda>st.
               let st = removeUnmapped p nPreviousOctants st
               in bindE (resetCellOctantMaps p (deletedOctants st) (renumberedOctants st)
                           (addedOctants st)) (\<lambda>p.
                  bindE (if deletedOctants st \<noteq> []
                         then bindE (if trackChanges
                                     then trackDeletion p (deletedOctants st) (adaptionData st)
                                     else Inr (adaptionData st)) (\<lambda>data.
                              bindE (deleteCells cellTypeInfo interfaceTypeInfo p (deletedOctants st))
                                (\<lambda>(stitchInfo, p). Inr (data, stitchInfo, p)))
                         else Inr (adaptionData st, Map.empty, p)) (\<lambda>(data, stitchInfo, p).
                  bindE (if addedOctants st \<noteq> []
                         then importCells cellTypeInfo updateInterfaces p (addedOctants st) stitchInfo
                         else Inr ([], p)) (\<lambda>(createdCells, p).
                    if trackChanges
                    then bindE (completeTracking p createdCells data) (\<lambda>data. Inr (data, p))
                    else Inr (data, p)))))))"

text \<open>
  \<open>_updateAdaption\<close>.  The adaption of the octree itself is PABLO's and is a parameter:
  \<open>adapt buildMapping tree\<close> returns whether anything changed and the octree afterwards.
\<close>

definition updateAdaption ::
  "(bool \<Rightarrow> PabloUniform \<Rightarrow> bool \<times> PabloUniform) \<Rightarrow> ElementInfo \<Rightarrow> ElementInfo
     \<Rightarrow> interfaceBuilder \<Rightarrow> VolOctree \<Rightarrow> bool \<Rightarrow> error + adaption_Info list \<times> VolOctree" where
  "updateAdaption adapt cellTypeInfo interfaceTypeInfo updateInterfaces p trackAdaption =
     (let buildMapping = (getCellCount p \<noteq> 0);
          (updated, tree) = adapt buildMapping (m_tree p);
          p = p\<lparr>m_tree := tree,
                m_lastTreeOperation :=
                  (if trackAdaption then OP_ADAPTION_MAPPED else OP_ADAPTION_UNMAPPED)\<rparr>
      in if \<not> updated then Inr ([], p)
         else sync cellTypeInfo interfaceTypeInfo updateInterfaces p trackAdaption)"

subsection \<open>The projection on a segment in exact arithmetic\<close>

text \<open>
  The point of the segment at the parameter \<open>s\<close>, and the parameter of the specification:
  the parameter of the foot of the perpendicular from \<open>P\<close> on the line, clamped to
  \<open>[0,1]\<close>.  Over the reals.  \<open>toDouble\<close> takes an array of reals to the array of the same
  numbers as doubles.
\<close>

definition segmentPoint :: "array3D \<Rightarrow> array3D \<Rightarrow> real \<Rightarrow> array3D" where
  "segmentPoint Q0 Q1 s = vadd (smul (1 - s) Q0) (smul s Q1)"

definition clampedParameter :: "array3D \<Rightarrow> array3D \<Rightarrow> array3D \<Rightarrow> real" where
  "clampedParameter P Q0 Q1 =
     max (min (- dotProduct (vsub Q1 Q0) (vsub Q0 P) / dotProduct (vsub Q1 Q0) (vsub Q1 Q0)) 1) 0"

definition toDouble :: "array3D \<Rightarrow> darray3D" where
  "toDouble v = dvec (Fin (e0 v)) (Fin (e1 v)) (Fin (e2 v))"

subsection \<open>The record of a refinement\<close>

text \<open>
  The adaption record that the loop of \<open>sync\<close> opens when it meets, at the tree id \<open>t\<close>,
  an octant flagged \<open>is_new_R\<close>: the \<open>2 ^ dimension\<close> consecutive tree ids from \<open>t\<close> on as
  current ids, and as previous ids the cells of the pre-adaption octants that the mapping
  of \<open>t\<close> lists.
\<close>

definition refinementRecord :: "VolOctree \<Rightarrow> nat \<Rightarrow> adaption_Info" where
  "refinementRecord p t =
     \<lparr>info_type = TYPE_REFINEMENT, info_entity = ENTITY_CELL, info_rank = currentRank,
      info_previous =
        map (\<lambda>(previousTreeId, ghostFlag, rank).
               getOctantId p (OctantInfo_of previousTreeId (\<not> ghostFlag)))
          (tree_mapping (m_tree p) t),
      info_current = map int [t..<t + 2 ^ dimension p]\<rparr>"

text \<open>
  The refinement event of the specification, for the children that start at the tree id
  \<open>t\<close>: a record of type refinement on cells whose current ids are the cells that the
  patch \<open>p'\<close>, the patch after \<open>sync\<close>, links to the \<open>2 ^ dimension\<close> consecutive tree ids
  from \<open>t\<close> on, and whose previous ids are the one cell that the patch \<open>p\<close>, the patch
  before \<open>sync\<close>, links to the one pre-adaption octant of the mapping of \<open>t\<close>.
\<close>

definition refinementEvent :: "VolOctree \<Rightarrow> VolOctree \<Rightarrow> nat \<Rightarrow> adaption_Info \<Rightarrow> bool" where
  "refinementEvent p p' t e \<longleftrightarrow>
     info_type e = TYPE_REFINEMENT \<and> info_entity e = ENTITY_CELL
     \<and> length (info_current e) = 2 ^ dimension p
     \<and> info_current e = map (\<lambda>i. the (m_octantToCell p' i)) [t..<t + 2 ^ dimension p]
     \<and> list_all (\<lambda>i. m_octantToCell p' i \<noteq> None) [t..<t + 2 ^ dimension p]
     \<and> length (info_previous e) = 1
     \<and> info_previous e =
         map (\<lambda>(previousTreeId, ghostFlag, rank).
                getOctantId p (OctantInfo_of previousTreeId (\<not> ghostFlag)))
           (tree_mapping (m_tree p) t)"

text \<open>
  The dangling-cell rule of \<open>deleteCells\<close>.  The cell on the side of an interface that
  stays, when the interface has two sides and one of them is deleted; \<open>deadCells\<close> are the
  ids of the deleted cells.
\<close>

definition danglingCellOf :: "long list \<Rightarrow> Interface \<Rightarrow> long" where
  "danglingCellOf deadCells interface =
     (if danglingSide deadCells interface = 0 then m_owner interface else m_neigh interface)"

text \<open>
  The well-formed patch, as far as \<open>deleteCells\<close> relies on it.  The vertices of a face of
  a cell, as the code reads them from the cell's connectivity and the face's local
  connectivity.  Two cells meet at the vertex \<open>v\<close> when an interface with two sides lies
  between them, both list it in their runs, and \<open>v\<close> is a vertex of the owner's face (the
  owner is the cell of the finer level, so that its face is the interface).
\<close>

definition faceVertices :: "ElementInfo \<Rightarrow> ElementInfo \<Rightarrow> Cell \<Rightarrow> nat \<Rightarrow> long list" where
  "faceVertices cellTypeInfo interfaceTypeInfo cell face =
     map (\<lambda>k. m_connect cell ! k)
       (take (nVertices interfaceTypeInfo) (faceConnect cellTypeInfo ! face))"

definition meetAt ::
  "ElementInfo \<Rightarrow> ElementInfo \<Rightarrow> VolOctree \<Rightarrow> long \<Rightarrow> long \<Rightarrow> long \<Rightarrow> bool" where
  "meetAt cellTypeInfo interfaceTypeInfo p v a b \<longleftrightarrow>
     (\<exists>i interface cellA cellB ownerCell.
        0 \<le> i \<and> m_interfaces p i = Some interface \<and> \<not> isBorder interface
      \<and> (m_owner interface = a \<and> m_neigh interface = b
           \<or> m_owner interface = b \<and> m_neigh interface = a)
      \<and> m_cells p a = Some cellA \<and> i \<in> set (getInterfaces cellA)
      \<and> m_cells p b = Some cellB \<and> i \<in> set (getInterfaces cellB)
      \<and> m_cells p (m_owner interface) = Some ownerCell
      \<and> v \<in> set (faceVertices cellTypeInfo interfaceTypeInfo ownerCell (m_ownerFace interface)))"

text \<open>
  The hypotheses on the patch that \<open>deleteCells\<close> receives: every cell has the vertex
  count of the patch's cell type; the interface ids in the runs of the cells fit an
  \<^verbatim>\<open>int\<close>; an interface in a run of a cell has that cell as its owner or its neighbour;
  and a deleted cell and a cell that stays which share a vertex are joined by a chain of
  cells that meet at that vertex (the cells around a vertex of a tiling are connected
  across the faces through that vertex).
\<close>

definition wellFormedForDeletion ::
  "ElementInfo \<Rightarrow> ElementInfo \<Rightarrow> VolOctree \<Rightarrow> long list \<Rightarrow> bool" where
  "wellFormedForDeletion cellTypeInfo interfaceTypeInfo p deadCells \<longleftrightarrow>
     (\<forall>c cell. m_cells p c = Some cell \<longrightarrow> length (m_connect cell) = nVertices cellTypeInfo)
   \<and> (\<forall>c cell i. m_cells p c = Some cell \<and> i \<in> set (getInterfaces cell)
        \<longrightarrow> - (2 ^ 31) \<le> i \<and> i < 2 ^ 31)
   \<and> (\<forall>c cell i interface. m_cells p c = Some cell \<and> i \<in> set (getInterfaces cell) \<and> 0 \<le> i
          \<and> m_interfaces p i = Some interface
        \<longrightarrow> m_owner interface = c \<or> m_neigh interface = c)
   \<and> (\<forall>v a b cellA cellB.
          a \<in> set deadCells \<and> m_cells p a = Some cellA \<and> v \<in> set (m_connect cellA)
        \<and> b \<notin> set deadCells \<and> m_cells p b = Some cellB \<and> v \<in> set (m_connect cellB)
        \<longrightarrow> (meetAt cellTypeInfo interfaceTypeInfo p v)\<^sup>*\<^sup>* a b)"

subsection \<open>Example inputs\<close>

text \<open>
  Arguments for the examples on \<open>intersectSegmentBox\<close> in which the bounding boxes do not
  overlap, so that no table row is read and the 3-D callee is never called, and the
  single-cell patch of scenario S1 with its quadtree before any refinement.
\<close>

definition unreadEdgeTable :: "nat \<Rightarrow> nat \<times> nat" where
  "unreadEdgeTable i = (0, 0)"

definition unreadFaceTable :: "nat \<Rightarrow> nat list" where
  "unreadFaceTable i = []"

definition uncalledSegmentSimplex ::
  "array3D \<Rightarrow> array3D \<Rightarrow> array3D list \<Rightarrow> array3D \<Rightarrow> bool \<times> array3D" where
  "uncalledSegmentSimplex V1 V2 E p = (False, p)"

definition someLocals :: "(array3D \<times> array3D) \<times> array3D list \<times> array3D" where
  "someLocals = ((vec 0 0 0, vec 0 0 0), ([], vec 0 0 0))"

definition keepVertices :: "array3D \<Rightarrow> (long \<rightharpoonup> array3D) \<Rightarrow> (long \<rightharpoonup> array3D)" where
  "keepVertices scaling vs = vs"

definition rootTree :: PabloUniform where
  "rootTree =
     \<lparr>tree_L = 1, tree_maxLevel = 20, tree_maxDepth = 0, tree_numOctants = 1, tree_numGhosts = 0,
      tree_level = (\<lambda>i. 0), tree_ghostLevel = (\<lambda>i. 0),
      tree_marker = (\<lambda>i. 0), tree_balance = (\<lambda>i. False),
      tree_mapping = (\<lambda>i. []), tree_isNewR = (\<lambda>i. False), tree_isNewC = (\<lambda>i. False),
      tree_findNeighbours = (\<lambda>i f. []), tree_findGhostNeighbours = (\<lambda>i f. []),
      tree_oppface = (\<lambda>f. if even f then f + 1 else f - 1),
      tree_nodeMorton = (\<lambda>internal i k. k), tree_node = (\<lambda>internal i k. vec 0 0 0)\<rparr>"

definition pixelCell :: "bool \<Rightarrow> long list \<Rightarrow> Cell" where
  "pixelCell interior conn =
     \<lparr>m_interior = interior, m_connect = conn,
      m_cell_interfaces = [[], [], [], []], m_adjacencies = [[], [], [], []]\<rparr>"

definition singleCellPatch :: VolOctree where
  "singleCellPatch =
     initializeTreeGeometry
       \<lparr>dimension = 2, m_tree = rootTree, m_lastTreeOperation = OP_INITIALIZATION,
        m_tree_dh = [], m_tree_area = [], m_tree_volume = [],
        m_cells = [0 \<mapsto> pixelCell True [0, 1, 2, 3]],
        m_interfaces = Map.empty,
        m_vertices = [0 \<mapsto> vec 0 0 0, 1 \<mapsto> vec 1 0 0, 2 \<mapsto> vec 0 1 0, 3 \<mapsto> vec 1 1 0],
        m_cellToOctant = [0 \<mapsto> 0], m_octantToCell = [0 \<mapsto> 0],
        m_cellToGhost = Map.empty, m_ghostToCell = Map.empty,
        m_cellIdGenerator = 1, m_vertexIdGenerator = 4\<rparr>"


definition deepCellPatch :: VolOctree where
  "deepCellPatch =
     initializeTreeGeometry
       (singleCellPatch\<lparr>m_tree := rootTree\<lparr>tree_maxDepth := 20, tree_level := (\<lambda>i. 20)\<rparr>\<rparr>)"

definition ghostCellPatch :: VolOctree where
  "ghostCellPatch =
     singleCellPatch
       \<lparr>m_cells := [0 \<mapsto> pixelCell True [0, 1, 2, 3], 1 \<mapsto> pixelCell False [1, 4, 3, 5]],
        m_cellToGhost := [1 \<mapsto> 0], m_ghostToCell := [0 \<mapsto> 1]\<rparr>"

text \<open>
  A 2-D patch of four cells, the children of the root in Morton order: octant 0 at the
  lower left, 1 at the lower right, 2 at the upper left, 3 at the upper right.  The cell
  of octant \<open>k\<close> has the id \<open>base + k\<close>, and its adjacencies are already built.  Faces:
  0 is \<open>-x\<close>, 1 is \<open>+x\<close>, 2 is \<open>-y\<close>, 3 is \<open>+y\<close>.
\<close>

definition gridNeighbours :: "nat \<Rightarrow> nat \<Rightarrow> (nat \<times> bool) list" where
  "gridNeighbours i face =
     (if i = 0 \<and> face = 1 then [(1, False)] else if i = 0 \<and> face = 3 then [(2, False)]
      else if i = 1 \<and> face = 0 then [(0, False)] else if i = 1 \<and> face = 3 then [(3, False)]
      else if i = 2 \<and> face = 1 then [(3, False)] else if i = 2 \<and> face = 2 then [(0, False)]
      else if i = 3 \<and> face = 0 then [(2, False)] else if i = 3 \<and> face = 2 then [(1, False)]
      else [])"

definition gridTree :: PabloUniform where
  "gridTree =
     rootTree\<lparr>tree_maxDepth := 1, tree_numOctants := 4, tree_level := (\<lambda>i. 1),
              tree_findNeighbours := gridNeighbours\<rparr>"

definition gridCell :: "long list \<Rightarrow> long list list \<Rightarrow> Cell" where
  "gridCell conn adj =
     \<lparr>m_interior = True, m_connect = conn,
      m_cell_interfaces = [[], [], [], []], m_adjacencies = adj\<rparr>"

definition gridPatch :: "long \<Rightarrow> VolOctree" where
  "gridPatch base =
     \<lparr>dimension = 2, m_tree = gridTree, m_lastTreeOperation = OP_ADAPTION_MAPPED,
      m_tree_dh = [], m_tree_area = [], m_tree_volume = [],
      m_cells = [base \<mapsto> gridCell [0, 1, 3, 4] [[], [base + 1], [], [base + 2]],
                 base + 1 \<mapsto> gridCell [1, 2, 4, 5] [[base], [], [], [base + 3]],
                 base + 2 \<mapsto> gridCell [3, 4, 6, 7] [[], [base + 3], [base], []],
                 base + 3 \<mapsto> gridCell [4, 5, 7, 8] [[base + 2], [], [base + 1], []]],
      m_interfaces = Map.empty,
      m_vertices = Map.empty,
      m_cellToOctant = [base \<mapsto> 0, base + 1 \<mapsto> 1, base + 2 \<mapsto> 2, base + 3 \<mapsto> 3],
      m_octantToCell = [0 \<mapsto> base, 1 \<mapsto> base + 1, 2 \<mapsto> base + 2, 3 \<mapsto> base + 3],
      m_cellToGhost = Map.empty, m_ghostToCell = Map.empty,
      m_cellIdGenerator = base + 4, m_vertexIdGenerator = 9\<rparr>"

text \<open>The adjacency runs of a cell in the patch a call returns.\<close>

definition adjacenciesOf :: "error + VolOctree \<Rightarrow> long \<Rightarrow> long list list option" where
  "adjacenciesOf r ident =
     (case r of Inl e \<Rightarrow> None | Inr p \<Rightarrow> map_option m_adjacencies (m_cells p ident))"

text \<open>
  Scenario S1: the single cell of \<open>singleCellPatch\<close> is refined.  The quadtree afterwards
  has the four children of the root, all flagged \<open>is_new_R\<close> and all mapped to the
  pre-adaption octant 0.  The node \<open>k\<close> of octant \<open>i\<close> is keyed by its position in the
  3 by 3 lattice of the corners.  The element types are the pixel and the line; the
  interface builder of the examples builds nothing.
\<close>

definition refinedTree :: PabloUniform where
  "refinedTree =
     rootTree\<lparr>tree_maxDepth := 1, tree_numOctants := 4, tree_level := (\<lambda>i. 1),
              tree_mapping := (\<lambda>t. [(0, False, - 1)]), tree_isNewR := (\<lambda>t. t < 4),
              tree_findNeighbours := gridNeighbours,
              tree_nodeMorton := (\<lambda>internal i k. (i mod 2 + k mod 2) + 3 * (i div 2 + k div 2)),
              tree_node := (\<lambda>internal i k.
                 vec (real (i mod 2 + k mod 2) / 2) (real (i div 2 + k div 2) / 2) 0)\<rparr>"

definition adaptRefine :: "bool \<Rightarrow> PabloUniform \<Rightarrow> bool \<times> PabloUniform" where
  "adaptRefine buildMapping tree = (True, refinedTree)"

definition pixelInfo :: ElementInfo where
  "pixelInfo = \<lparr>nVertices = 4, faceConnect = [[0, 2], [1, 3], [0, 1], [2, 3]]\<rparr>"

definition lineInfo :: ElementInfo where
  "lineInfo = \<lparr>nVertices = 2, faceConnect = [[0], [1]]\<rparr>"

definition noInterfaceBuilder :: interfaceBuilder where
  "noInterfaceBuilder containers createdCells = Inr containers"

text \<open>What a call returned: its adaption records, or nothing if it failed.\<close>

definition recordsOf :: "error + adaption_Info list \<times> VolOctree \<Rightarrow> adaption_Info list option" where
  "recordsOf r = (case r of Inl e \<Rightarrow> None | Inr (data, p) \<Rightarrow> Some data)"

definition refinedCellPatch :: VolOctree where
  "refinedCellPatch =
     singleCellPatch\<lparr>m_tree := refinedTree, m_lastTreeOperation := OP_ADAPTION_MAPPED\<rparr>"


text \<open>
  Patches for \<open>deleteCells\<close>, on the 3 by 3 lattice of the corners of the four level-1
  cells (vertex \<open>i + 3 j\<close> at \<open>(i/2, j/2)\<close>).  \<open>interfacedGridPatch\<close> is the four-cell patch
  with its four inner interfaces: 0 between the cells 0 and 1, 1 between 0 and 2,
  2 between 1 and 3, 3 between 2 and 3.  The cells 0 and 3 touch in the vertex 4 only.
\<close>

definition latticeVertices :: "long \<rightharpoonup> array3D" where
  "latticeVertices =
     [0 \<mapsto> vec 0 0 0, 1 \<mapsto> vec (1 / 2) 0 0, 2 \<mapsto> vec 1 0 0,
      3 \<mapsto> vec 0 (1 / 2) 0, 4 \<mapsto> vec (1 / 2) (1 / 2) 0, 5 \<mapsto> vec 1 (1 / 2) 0,
      6 \<mapsto> vec 0 1 0, 7 \<mapsto> vec (1 / 2) 1 0, 8 \<mapsto> vec 1 1 0]"

definition faceCell :: "long list \<Rightarrow> long list list \<Rightarrow> long list list \<Rightarrow> Cell" where
  "faceCell conn itf adj =
     \<lparr>m_interior = True, m_connect = conn, m_cell_interfaces = itf, m_adjacencies = adj\<rparr>"

definition innerInterface :: "long \<Rightarrow> nat \<Rightarrow> long \<Rightarrow> nat \<Rightarrow> Interface" where
  "innerInterface owner ownerFace neigh neighFace =
     \<lparr>m_owner = owner, m_ownerFace = ownerFace, m_neigh = neigh, m_neighFace = neighFace\<rparr>"

definition interfacedGridPatch :: VolOctree where
  "interfacedGridPatch =
     (gridPatch 0)
       \<lparr>m_cells := [0 \<mapsto> faceCell [0, 1, 3, 4] [[], [0], [], [1]] [[], [1], [], [2]],
                   1 \<mapsto> faceCell [1, 2, 4, 5] [[0], [], [], [2]] [[0], [], [], [3]],
                   2 \<mapsto> faceCell [3, 4, 6, 7] [[], [3], [1], []] [[], [3], [0], []],
                   3 \<mapsto> faceCell [4, 5, 7, 8] [[3], [], [2], []] [[2], [], [1], []]],
        m_interfaces := [0 \<mapsto> innerInterface 0 1 1 0, 1 \<mapsto> innerInterface 0 3 2 2,
                        2 \<mapsto> innerInterface 1 3 3 2, 3 \<mapsto> innerInterface 2 1 3 0],
        m_vertices := latticeVertices\<rparr>"

definition deletion :: "long \<Rightarrow> DeleteInfo" where
  "deletion ident = \<lparr>di_cellId = ident, di_trigger = TYPE_REFINEMENT, di_rank = - 1\<rparr>"

text \<open>The patch a call of \<open>deleteCells\<close> leaves, or nothing if it failed.\<close>

definition patchOf :: "error + (nat \<rightharpoonup> long) \<times> VolOctree \<Rightarrow> VolOctree option" where
  "patchOf r = (case r of Inl e \<Rightarrow> None | Inr (stitchVertices, p) \<Rightarrow> Some p)"

text \<open>In the patch a call left: the connectivity of a cell, and whether a vertex is in the
  container.\<close>

definition connectOf :: "VolOctree option \<Rightarrow> long \<Rightarrow> long list option" where
  "connectOf r ident = (case r of None \<Rightarrow> None | Some q \<Rightarrow> map_option m_connect (m_cells q ident))"

definition hasVertex :: "VolOctree option \<Rightarrow> long \<Rightarrow> bool option" where
  "hasVertex r ident = (case r of None \<Rightarrow> None | Some q \<Rightarrow> Some (m_vertices q ident \<noteq> None))"

section \<open>Results\<close>

text \<open>
  C9.  The claim asks that the Y-direction branch of \<open>subtractionAABB\<close> fall back on A's
  own Y bounds \<open>A0[1]\<close>, \<open>A1[1]\<close>.  The code falls back on A's Z bounds.  Box A is
  \<open>[0,1] \<times> [0,2] \<times> [5,6]\<close>, box B is \<open>[-1,2] \<times> [1,3] \<times> [4,7]\<close>: B covers A on X and Z
  and cuts the upper part of A's Y interval, so the complement on Y is \<open>[0,1]\<close>.  The code
  returns the lower Y bound 5, which is \<open>A0[2]\<close>, and not 0, which is \<open>A0[1]\<close>.
\<close>

theorem subtractionAABB_Y_uses_Z_bounds:
  "e1 (fst (subtractionAABB (vec 0 0 5) (vec 1 2 6) (vec (-1) 1 4) (vec 2 3 7) C0 C1)) = 5
   \<and> e1 (snd (subtractionAABB (vec 0 0 5) (vec 1 2 6) (vec (-1) 1 4) (vec 2 3 7) C0 C1)) = 1
   \<and> e1 (vec 0 0 5) = 0 \<and> e2 (vec 0 0 5) = 5"
  by (simp add: subtractionAABB_def vec_def)

subsection \<open>Geometry kernel\<close>

lemma dotProduct_self_pos:
  assumes "Q0 \<noteq> Q1"
  shows "0 < dotProduct (vsub Q1 Q0) (vsub Q1 Q0)"
proof -
  have "e0 Q1 - e0 Q0 \<noteq> 0 \<or> e1 Q1 - e1 Q0 \<noteq> 0 \<or> e2 Q1 - e2 Q0 \<noteq> 0"
    using assms by (cases Q0, cases Q1) auto
  then have "(e0 Q1 - e0 Q0)\<^sup>2 + (e1 Q1 - e1 Q0)\<^sup>2 + (e2 Q1 - e2 Q0)\<^sup>2 > 0"
    by (metis add_pos_nonneg add_nonneg_pos zero_le_power2 zero_less_power2 add_nonneg_nonneg)
  then show ?thesis
    by (simp add: dotProduct_def vsub_def power2_eq_square)
qed

text \<open>The squared distance from \<open>P\<close> to the point of parameter \<open>s\<close> is a quadratic in \<open>s\<close>.\<close>

lemma segment_point_sqdist:
  "dotProduct (vsub P (segmentPoint Q0 Q1 s)) (vsub P (segmentPoint Q0 Q1 s))
   = dotProduct (vsub Q0 P) (vsub Q0 P)
     + (2 * s * dotProduct (vsub Q1 Q0) (vsub Q0 P) + s * s * dotProduct (vsub Q1 Q0) (vsub Q1 Q0))"
  by (simp add: dotProduct_def vsub_def vadd_def smul_def segmentPoint_def algebra_simps)

text \<open>On \<open>[0,1]\<close> the quadratic is least at the clamped vertex of the parabola.\<close>

lemma clamp_minimises:
  fixes a b s :: real
  assumes a: "0 < a" and s0: "0 \<le> s" and s1: "s \<le> 1"
  defines "t \<equiv> max (min (- b / a) 1) 0"
  shows "2 * t * b + t * t * a \<le> 2 * s * b + s * s * a"
proof -
  define u where "u = - b / a"
  have b: "b = - (a * u)" using a by (simp add: u_def)
  have diff: "(2 * s * b + s * s * a) - (2 * t * b + t * t * a) = a * ((s - t) * (s + t - 2 * u))"
    by (simp add: b algebra_simps)
  have tu: "t = max (min u 1) 0" by (simp add: t_def u_def)
  have "0 \<le> (s - t) * (s + t - 2 * u)"
  proof -
    consider "u \<le> 0" | "1 \<le> u" | "0 < u" "u < 1" by linarith
    then show ?thesis
    proof cases
      case 1
      then have "t = 0" by (simp add: tu)
      then show ?thesis using 1 s0 by (simp add: mult_nonneg_nonneg)
    next
      case 2
      then have "t = 1" by (simp add: tu)
      then show ?thesis using 2 s1 by (simp add: mult_nonpos_nonpos)
    next
      case 3
      then have "t = u" by (simp add: tu)
      then have "(s - t) * (s + t - 2 * u) = (s - u) * (s - u)" by (simp add: algebra_simps)
      then show ?thesis by simp
    qed
  qed
  then have "0 \<le> a * ((s - t) * (s + t - 2 * u))" using a by (simp add: mult_nonneg_nonneg)
  then show ?thesis using diff by linarith
qed

text \<open>In exact arithmetic the point at the clamped parameter is the closest point of the
  segment.\<close>

lemma clampedParameter_closest:
  assumes "Q0 \<noteq> Q1"
  shows "0 \<le> clampedParameter P Q0 Q1 \<and> clampedParameter P Q0 Q1 \<le> 1
       \<and> (\<forall>s. 0 \<le> s \<and> s \<le> 1 \<longrightarrow>
            norm2 (vsub P (segmentPoint Q0 Q1 (clampedParameter P Q0 Q1)))
              \<le> norm2 (vsub P (segmentPoint Q0 Q1 s)))"
proof -
  define a where "a = dotProduct (vsub Q1 Q0) (vsub Q1 Q0)"
  define b where "b = dotProduct (vsub Q1 Q0) (vsub Q0 P)"
  define t where "t = max (min (- b / a) 1) 0"
  have a: "0 < a" unfolding a_def by (rule dotProduct_self_pos [OF assms])
  have t: "clampedParameter P Q0 Q1 = t" by (simp add: clampedParameter_def t_def a_def b_def)
  have t01: "0 \<le> t" "t \<le> 1" by (simp_all add: t_def)
  have closest: "norm2 (vsub P (segmentPoint Q0 Q1 t)) \<le> norm2 (vsub P (segmentPoint Q0 Q1 s))"
    if s: "0 \<le> s" "s \<le> 1" for s
  proof -
    have "2 * t * b + t * t * a \<le> 2 * s * b + s * s * a"
      unfolding t_def by (rule clamp_minimises [OF a s])
    then have "dotProduct (vsub P (segmentPoint Q0 Q1 t)) (vsub P (segmentPoint Q0 Q1 t))
             \<le> dotProduct (vsub P (segmentPoint Q0 Q1 s)) (vsub P (segmentPoint Q0 Q1 s))"
      by (simp only: segment_point_sqdist a_def [symmetric] b_def [symmetric] add_left_mono)
    then show ?thesis by (simp add: norm2_def)
  qed
  show ?thesis using t01 closest by (simp add: t)
qed

subsection \<open>The rounding of double precision\<close>

lemma roundEven_of_int: "roundEven (of_int n) = n"
  by (simp add: roundEven_def)

lemma roundEven_bounds: "of_int (roundEven x) \<le> x + 1 / 2" "x - 1 / 2 \<le> of_int (roundEven x)"
  by (auto simp: roundEven_def Let_def) linarith+





text \<open>Powers of two in the range of the format are not rounded.\<close>

lemma binary64_power_of_two:
  assumes "- 1022 \<le> k" and "k \<le> 1023"
  shows "binary64 (2 powr of_int k) = Fin (2 powr of_int k)"
    and "binary64 (- (2 powr of_int k)) = Fin (- (2 powr of_int k))"
proof -
  define x :: real where "x = 2 powr of_int k"
  have x: "0 < x" by (simp add: x_def)
  have lg: "\<lfloor>log 2 \<bar>x\<bar>\<rfloor> = k" by (simp add: x_def)
  have e: "max \<lfloor>log 2 \<bar>x\<bar>\<rfloor> (- 1022) = k" using lg assms(1) by simp
  define q :: real where "q = 2 powr (of_int k - 52)"
  have q: "0 < q" by (simp add: q_def)
  have "x / q = 2 powr 52" by (simp add: x_def q_def powr_diff [symmetric])
  also have "\<dots> = of_int (2 ^ 52)" using powr_realpow [of 2 52] by simp
  finally have xq: "x / q = of_int (2 ^ 52)" .
  have re: "roundEven (x / q) = 2 ^ 52" unfolding xq by (rule roundEven_of_int)
  have re': "roundEven (- x / q) = - (2 ^ 52)"
  proof -
    have "- x / q = of_int (- (2 ^ 52))" using xq by simp
    then show ?thesis using roundEven_of_int [of "- (2 ^ 52)"] by simp
  qed
  have r: "of_int (2 ^ 52) * q = x" using xq q by (simp add: field_simps)
  have "x \<le> 2 powr 1023" unfolding x_def by (rule powr_mono) (use assms(2) in simp_all)
  also have "\<dots> = 2 ^ 1023" using powr_realpow [of 2 1023] by simp
  also have "\<dots> < (2 ^ 1024 :: real)" by simp
  finally have small: "x < 2 ^ 1024" .
  have e': "max \<lfloor>log 2 \<bar>- x\<bar>\<rfloor> (- 1022) = k" using e by simp
  show "binary64 (2 powr of_int k) = Fin (2 powr of_int k)"
    using x small r re e
    by (simp add: binary64_def Let_def x_def [symmetric] q_def [symmetric])
  show "binary64 (- (2 powr of_int k)) = Fin (- (2 powr of_int k))"
    using x small r re' e'
    by (simp add: binary64_def Let_def x_def [symmetric] q_def [symmetric])
qed


lemma binary64_numerals:
  "binary64 1 = Fin 1" "binary64 2 = Fin 2" "binary64 4 = Fin 4" "binary64 (1 / 2) = Fin (1 / 2)"
  "binary64 (- 1) = Fin (- 1)" "binary64 (- 2) = Fin (- 2)"
  using binary64_power_of_two [of 0] binary64_power_of_two [of 1] binary64_power_of_two [of 2]
    binary64_power_of_two [of "- 1"]
  by (simp_all add: powr_minus_divide)

subsection \<open>projectPointSegment in double arithmetic\<close>

text \<open>With a rounding that changes nothing, the function computes the point at the clamped
  parameter, which is the closest point of the segment.\<close>

lemma projectPointSegment_exact_arithmetic:
  assumes "Q0 \<noteq> Q1"
  shows "projectPointSegment Fin (toDouble P) (toDouble Q0) (toDouble Q1)
         = (toDouble (segmentPoint Q0 Q1 (clampedParameter P Q0 Q1)),
            (Fin (1 - clampedParameter P Q0 Q1), Fin (clampedParameter P Q0 Q1)))"
proof -
  have pos: "dotProduct (vsub Q1 Q0) (vsub Q1 Q0) \<noteq> 0"
    using dotProduct_self_pos [OF assms] by simp
  have t: "lineParameter Fin (toDouble P) (toDouble Q0) (toDouble Q1)
         = Fin (- dotProduct (vsub Q1 Q0) (vsub Q0 P) / dotProduct (vsub Q1 Q0) (vsub Q1 Q0))"
    using pos
    by (simp add: lineParameter_def toDouble_def dvec_def dvsub_def dsub_def ddotProduct_def
        dotProduct_def vsub_def)
  have c: "dmax (dmin (Fin u) (Fin 1)) (Fin 0) = Fin (max (min u 1) 0)" for u
    by (simp add: dmin_def dmax_def max_def min_def)
  show ?thesis
    using t
    by (simp add: projectPointSegment_def lineParameter_def Let_def c clampedParameter_def
        reconstructPointFromBarycentricSegment_def dsub_def dvadd_def dsmul_def toDouble_def
        dvec_def segmentPoint_def vadd_def smul_def)
qed

text \<open>Rounding also makes the two coordinates miss the sum 1 on an ordinary segment: with
  \<open>Q0 = (0,0,0)\<close>, \<open>Q1 = (1,0,0)\<close> and \<open>P = (2^-60,0,0)\<close> the parameter is \<open>2^-60\<close>, and
  \<open>1 - 2^-60\<close> is rounded to 1.\<close>

lemma binary64_one_minus_tiny: "binary64 (1 - 2 powr (- 60)) = Fin 1"
proof -
  define x :: real where "x = 1 - 2 powr (- 60)"
  have x: "1 / 2 \<le> x" "x < 1" "x \<noteq> 0" by (simp_all add: x_def powr_minus_divide)
  have "- 1 \<le> log 2 x" using x by (simp add: le_log_iff powr_minus_divide)
  moreover have "log 2 x < 0" using x by (simp add: log_less_iff)
  ultimately have "\<lfloor>log 2 \<bar>x\<bar>\<rfloor> = - 1" using x by (simp add: floor_eq_iff)
  then have e: "max \<lfloor>log 2 \<bar>x\<bar>\<rfloor> (- 1022) = - 1" by simp
  define q :: real where "q = 2 powr (- 53)"
  have q: "q = 1 / 2 ^ 53" by (simp add: q_def powr_minus_divide)
  have xq: "x / q = 2 ^ 53 - 1 / 2 ^ 7" by (simp add: x_def q powr_minus_divide)
  have fl: "\<lfloor>x / q\<rfloor> = 2 ^ 53 - 1" unfolding xq by (simp add: floor_eq_iff)
  have "roundEven (x / q) = 2 ^ 53"
    unfolding roundEven_def Let_def fl by (simp add: xq)
  then have "of_int (roundEven (x / q)) * q = 1" by (simp add: q)
  then show ?thesis
    using x(3) e by (simp add: binary64_def Let_def x_def [symmetric] q_def [symmetric])
qed

lemma projectPointSegment_sum_not_one:
  "snd (projectPointSegment binary64 (dvec (Fin (2 powr (- 60))) (Fin 0) (Fin 0))
         (dvec (Fin 0) (Fin 0) (Fin 0)) (dvec (Fin 1) (Fin 0) (Fin 0)))
     = (Fin 1, Fin (2 powr (- 60)))"
proof -
  define a :: real where "a = 2 powr (- 60)"
  have ra: "binary64 a = Fin a" "binary64 (- a) = Fin (- a)"
    using binary64_power_of_two [of "- 60"] by (simp_all add: a_def)
  have r0: "binary64 0 = Fin 0" by (simp add: binary64_def)
  have a01: "0 < a" "a < 1" by (simp_all add: a_def powr_minus_divide)
  have r1a: "binary64 (1 - a) = Fin 1" unfolding a_def by (rule binary64_one_minus_tiny)
  have "snd (projectPointSegment binary64 (dvec (Fin a) (Fin 0) (Fin 0))
         (dvec (Fin 0) (Fin 0) (Fin 0)) (dvec (Fin 1) (Fin 0) (Fin 0))) = (Fin 1, Fin a)"
    using a01
    by (simp add: projectPointSegment_def Let_def dvec_def dvsub_def dsub_def ddotProduct_def
        dmin_def dmax_def ra r0 r1a binary64_numerals)
  then show ?thesis by (simp add: a_def)
qed



lemma clamp_NaN: "dmax (dmin NaN (Fin 1)) (Fin 0) = NaN"
  by (simp add: dmin_def dmax_def)

text \<open>When the line parameter is NaN, so are both barycentric coordinates.\<close>

lemma projectPointSegment_NaN:
  assumes "lineParameter rd P Q0 Q1 = NaN"
  shows "snd (projectPointSegment rd P Q0 Q1) = (NaN, NaN)"
  using assms
  by (simp add: projectPointSegment_def lineParameter_def Let_def clamp_NaN dsub_def)



subsection \<open>Intersection predicates\<close>

lemma intersectLinePlane_false:
  "fst (intersectLinePlane P1 n1 P2 n2 P) = False \<Longrightarrow> snd (intersectLinePlane P1 n1 P2 n2 P) = P"
  by (simp add: intersectLinePlane_def Let_def split: if_splits)

lemma intersectSegmentPlane_false:
  "fst (intersectSegmentPlane xP Q1 Q2 P2 n2 P) = False \<Longrightarrow>
   snd (intersectSegmentPlane xP Q1 Q2 P2 n2 P) = P"
  by (auto simp: intersectSegmentPlane_def Let_def split: if_splits prod.splits)

declare intersectSegmentBox_edges.simps [simp del]
declare intersectSegmentBox_faces.simps [simp del]
declare intersectBoxBox_from.simps [simp del]

text \<open>The edge loop answers false only if the flag was false at entry, and then it has
  pushed nothing.\<close>

lemma intersectSegmentBox_edges_false:
  "fst (intersectSegmentBox_edges tab i V1 V2 A1 A2 E p intersect P) = False \<Longrightarrow>
   \<not> intersect \<and> snd (intersectSegmentBox_edges tab i V1 V2 A1 A2 E p intersect P) = P"
proof (induction tab i V1 V2 A1 A2 E p intersect P rule: intersectSegmentBox_edges.induct)
  case (1 tab i V1 V2 A1 A2 E p intersect P)
  show ?case
  proof (cases "i < 4")
    case False
    then show ?thesis using "1.prems" by (simp add: intersectSegmentBox_edges.simps)
  next
    case True
    obtain hit p' where hp:
      "intersectSegmentSegment (fst (edgeOfBox tab i A1 A2 E)) (snd (edgeOfBox tab i A1 A2 E)) V1 V2 p
         = (hit, p')"
      by (cases "intersectSegmentSegment (fst (edgeOfBox tab i A1 A2 E))
                   (snd (edgeOfBox tab i A1 A2 E)) V1 V2 p")
    show ?thesis
    proof (cases hit)
      case True
      with \<open>i < 4\<close> hp "1.prems" "1.IH"(1) [OF \<open>i < 4\<close> refl hp [symmetric], OF refl True]
      show ?thesis
        by (auto simp: intersectSegmentBox_edges.simps [of tab i] Let_def)
    next
      case False
      with \<open>i < 4\<close> hp "1.prems" "1.IH"(2) [OF \<open>i < 4\<close> refl hp [symmetric], OF refl False]
      show ?thesis
        by (auto simp: intersectSegmentBox_edges.simps [of tab i] Let_def)
    qed
  qed
qed

lemma intersectSegmentBox_faces_false:
  "fst (intersectSegmentBox_faces tab segSimplex i V1 V2 A1 A2 E p intersect P) = False \<Longrightarrow>
   \<not> intersect \<and> snd (intersectSegmentBox_faces tab segSimplex i V1 V2 A1 A2 E p intersect P) = P"
proof (induction tab segSimplex i V1 V2 A1 A2 E p intersect P rule: intersectSegmentBox_faces.induct)
  case (1 tab segSimplex i V1 V2 A1 A2 E p intersect P)
  show ?case
  proof (cases "i < 12")
    case False
    then show ?thesis using "1.prems" by (simp add: intersectSegmentBox_faces.simps)
  next
    case True
    obtain hit p' where hp: "segSimplex V1 V2 (faceOfBox tab i A1 A2 E) p = (hit, p')"
      by (cases "segSimplex V1 V2 (faceOfBox tab i A1 A2 E) p")
    show ?thesis
    proof (cases hit)
      case True
      with \<open>i < 12\<close> hp "1.prems" "1.IH"(1) [OF \<open>i < 12\<close> refl hp [symmetric], OF refl True]
      show ?thesis
        by (auto simp: intersectSegmentBox_faces.simps [of tab segSimplex i] Let_def)
    next
      case False
      with \<open>i < 12\<close> hp "1.prems" "1.IH"(2) [OF \<open>i < 12\<close> refl hp [symmetric], OF refl False]
      show ?thesis
        by (auto simp: intersectSegmentBox_faces.simps [of tab segSimplex i] Let_def)
    qed
  qed
qed

lemma intersectSegmentBox_false:
  assumes "intersectSegmentBox edgeTab faceTab segSimplex locals V1 V2 A1 A2 P ndim = Inr (False, P')"
  shows "P' = []"
proof -
  obtain B1 B2 where B: "computeAABBSegment V1 V2 = (B1, B2)"
    by (cases "computeAABBSegment V1 V2")
  show ?thesis
  proof (cases "intersectBoxBox A1 A2 B1 B2 ndim")
    case (Inl err)
    with assms B show ?thesis by (simp add: intersectSegmentBox_def)
  next
    case (Inr overlap)
    show ?thesis
    proof (cases overlap)
      case False
      with assms B Inr show ?thesis by (auto simp: intersectSegmentBox_def)
    next
      case True
      consider "ndim = 2" | "ndim = 3" | "ndim \<noteq> 2" "ndim \<noteq> 3" by blast
      then show ?thesis
      proof cases
        case 1
        with assms B Inr True
        have r: "intersectSegmentBox_edges edgeTab 0 V1 V2 A1 A2 (fst locals) (snd (snd locals)) False []
                 = (False, P')"
          by (simp add: intersectSegmentBox_def)
        from intersectSegmentBox_edges_false [of edgeTab 0 V1 V2 A1 A2 "fst locals" "snd (snd locals)" False "[]"]
        show ?thesis by (simp add: r)
      next
        case 2
        with assms B Inr True
        have r: "intersectSegmentBox_faces faceTab segSimplex 0 V1 V2 A1 A2 (fst (snd locals))
                   (snd (snd locals)) False [] = (False, P')"
          by (simp add: intersectSegmentBox_def)
        from intersectSegmentBox_faces_false [of faceTab segSimplex 0 V1 V2 A1 A2 "fst (snd locals)"
            "snd (snd locals)" False "[]"]
        show ?thesis by (simp add: r)
      next
        case 3
        with assms B Inr True show ?thesis by (simp add: intersectSegmentBox_def)
      qed
    qed
  qed
qed

text \<open>
  \<open>intersectSegmentSegment\<close> hands its output point to \<open>intersectLineLine\<close>, which writes
  it as soon as the supporting lines meet.  When that point lies outside a segment the
  answer is false and the caller's point is gone: here the lines of \<open>(0,0,0)-(1,0,0)\<close> and
  \<open>(2,-1,0)-(2,0,0)\<close> meet in \<open>(2,0,0)\<close>, outside the first segment.
\<close>

lemma intersectSegmentSegment_false_overwrites:
  "intersectSegmentSegment (vec 0 0 0) (vec 1 0 0) (vec 2 (- 1) 0) (vec 2 0 0) (vec 7 7 7)
     = (False, vec 2 0 0)"
  by (simp add: intersectSegmentSegment_def intersectLineLine_def distanceLineLine_def vec_def
      vsub_def vadd_def smul_def sdiv_def norm2_def dotProduct_def Let_def)

text \<open>
  C10, as stated, fails: the claim lists segment/box among the predicates that leave the
  caller's output untouched when they answer false.  \<open>intersectSegmentBox\<close> clears its
  output list first.  The segment \<open>(5,5,0)-(6,6,0)\<close> misses the unit square, the answer is
  false, and the caller's list \<open>[(9,9,9)]\<close> comes back empty.
\<close>

theorem intersectSegmentBox_false_clears_output:
  "intersectSegmentBox unreadEdgeTable unreadFaceTable uncalledSegmentSimplex someLocals
     (vec 5 5 0) (vec 6 6 0) (vec 0 0 0) (vec 1 1 0) [vec 9 9 9] 2 = Inr (False, [])
   \<and> [vec 9 9 9] \<noteq> []"
  by (simp add: intersectSegmentBox_def computeAABBSegment_def intersectBoxBox_def
      intersectBoxBox_from.simps vec_def component_def)

text \<open>
  C10, amended.  When \<open>intersectLinePlane\<close> or \<open>intersectSegmentPlane\<close> answers false, the
  caller's output point is unaltered.  \<open>intersectSegmentBox\<close> empties its output list at
  entry and appends one point per intersection found, so when it answers false the list
  the caller sees is empty, whatever it held before.
\<close>

theorem intersection_output_on_false:
  "(fst (intersectLinePlane P1 n1 P2 n2 P) = False \<longrightarrow> snd (intersectLinePlane P1 n1 P2 n2 P) = P)
   \<and> (fst (intersectSegmentPlane xP Q1 Q2 R2 m2 R) = False \<longrightarrow>
        snd (intersectSegmentPlane xP Q1 Q2 R2 m2 R) = R)
   \<and> (intersectSegmentBox edgeTab faceTab segSimplex locals V1 V2 A1 A2 Ps ndim = Inr (False, Ps')
        \<longrightarrow> Ps' = [])"
proof (intro conjI impI)
  assume "fst (intersectLinePlane P1 n1 P2 n2 P) = False"
  then show "snd (intersectLinePlane P1 n1 P2 n2 P) = P" by (rule intersectLinePlane_false)
next
  assume "fst (intersectSegmentPlane xP Q1 Q2 R2 m2 R) = False"
  then show "snd (intersectSegmentPlane xP Q1 Q2 R2 m2 R) = R" by (rule intersectSegmentPlane_false)
next
  assume "intersectSegmentBox edgeTab faceTab segSimplex locals V1 V2 A1 A2 Ps ndim = Inr (False, Ps')"
  then show "Ps' = []" by (rule intersectSegmentBox_false)
qed

theorem intersection_output_on_false_witness:
  "fst (intersectLinePlane (vec 0 0 0) (vec 1 0 0) (vec 0 0 1) (vec 0 0 1) (vec 3 3 3)) = False
   \<and> snd (intersectLinePlane (vec 0 0 0) (vec 1 0 0) (vec 0 0 1) (vec 0 0 1) (vec 3 3 3)) = vec 3 3 3
   \<and> fst (intersectSegmentPlane (vec 7 7 7) (vec 0 0 0) (vec 1 0 0) (vec 0 0 1) (vec 0 0 1) (vec 3 3 3)) = False
   \<and> snd (intersectSegmentPlane (vec 7 7 7) (vec 0 0 0) (vec 1 0 0) (vec 0 0 1) (vec 0 0 1) (vec 3 3 3)) = vec 3 3 3
   \<and> intersectSegmentBox unreadEdgeTable unreadFaceTable uncalledSegmentSimplex someLocals
       (vec 5 5 0) (vec 6 6 0) (vec 0 0 0) (vec 1 1 0) [vec 9 9 9] 2 = Inr (False, [])"
proof -
  have a: "fst (intersectLinePlane (vec 0 0 0) (vec 1 0 0) (vec 0 0 1) (vec 0 0 1) (vec 3 3 3)) = False"
    by (simp add: intersectLinePlane_def vec_def dotProduct_def Let_def)
  have b: "fst (intersectSegmentPlane (vec 7 7 7) (vec 0 0 0) (vec 1 0 0) (vec 0 0 1) (vec 0 0 1) (vec 3 3 3)) = False"
    by (simp add: intersectSegmentPlane_def intersectLinePlane_def vec_def
        vsub_def vadd_def smul_def sdiv_def norm2_def dotProduct_def Let_def)
  have c: "intersectSegmentBox unreadEdgeTable unreadFaceTable uncalledSegmentSimplex someLocals
       (vec 5 5 0) (vec 6 6 0) (vec 0 0 0) (vec 1 1 0) [vec 9 9 9] 2 = Inr (False, [])"
    by (simp add: intersectSegmentBox_def computeAABBSegment_def intersectBoxBox_def
        intersectBoxBox_from.simps vec_def component_def)
  from a b c
    intersection_output_on_false [of "vec 0 0 0" "vec 1 0 0" "vec 0 0 1" "vec 0 0 1" "vec 3 3 3"
      "vec 7 7 7" "vec 0 0 0" "vec 1 0 0" "vec 0 0 1" "vec 0 0 1" "vec 3 3 3"
      unreadEdgeTable unreadFaceTable uncalledSegmentSimplex someLocals
      "vec 5 5 0" "vec 6 6 0" "vec 0 0 0" "vec 1 1 0" "[vec 9 9 9]" 2 "[]"]
  show ?thesis by simp
qed

subsection \<open>Scaling\<close>

text \<open>The two comparisons of \<open>scale\<close> ask for components that differ by more than \<open>1e-14\<close>:
  the call goes through exactly when the first component differs from both others.\<close>

lemma scale_accepts_iff:
  "(\<exists>q. scale ndebug ks s p = Inr q \<and> tree_L (m_tree q) = tree_L (m_tree p) * e0 s
         \<and> q = (initializeTreeGeometry (p\<lparr>m_tree := setL (tree_L (m_tree p) * e0 s) (m_tree p)\<rparr>))
                 \<lparr>m_vertices := ks s (m_vertices p)\<rparr>)
   \<or> (\<bar>e0 s - e1 s\<bar> \<le> 1 / 10 ^ 14 \<or> \<bar>e0 s - e2 s\<bar> \<le> 1 / 10 ^ 14)
     \<and> scale ndebug ks s p = (if ndebug then Inr p else Inl AssertionFailure)"
  by (auto simp: scale_def Let_def initializeTreeGeometry_def setL_def)

text \<open>
  C3.  The claim asks that a uniform scaling vector be accepted.  With \<open>s = (2,2,2)\<close> the
  two differences are 0, the flag \<open>uniformScaling\<close> is false, and the call is rejected:
  the assertion fails, and in a build without assertions the function returns with the
  patch as it was, \<open>L\<close> included.
\<close>

theorem scale_rejects_uniform_vector:
  "scale True ks (vec 2 2 2) p = Inr p \<and> scale False ks (vec 2 2 2) p = Inl AssertionFailure"
  by (simp add: scale_def vec_def Let_def)

text \<open>A vector whose components all differ is accepted and scales \<open>L\<close> by its first
  component.\<close>

lemma scale_accepts_non_uniform_vector:
  "\<exists>q. scale ndebug keepVertices (vec 2 3 4) singleCellPatch = Inr q \<and> tree_L (m_tree q) = 2"
  by (simp add: scale_def vec_def Let_def initializeTreeGeometry_def setL_def singleCellPatch_def
      rootTree_def)

subsection \<open>Per-level tables\<close>

lemma initializeTreeGeometry_lengths:
  "length (m_tree_dh (initializeTreeGeometry p)) = tree_maxLevel (m_tree p)"
  "length (m_tree_area (initializeTreeGeometry p)) = tree_maxLevel (m_tree p)"
  "length (m_tree_volume (initializeTreeGeometry p)) = tree_maxLevel (m_tree p)"
  by (simp_all add: initializeTreeGeometry_def Let_def)

lemma m_tree_initializeTreeGeometry:
  "m_tree (initializeTreeGeometry p) = m_tree p"
  by (simp add: initializeTreeGeometry_def Let_def)

lemma getCellOctant_initializeTreeGeometry:
  "getCellOctant (initializeTreeGeometry p) ident = getCellOctant p ident"
  by (simp add: getCellOctant_def initializeTreeGeometry_def Let_def split: option.splits)

lemma getCellLevel_initializeTreeGeometry:
  "getCellLevel (initializeTreeGeometry p) ident = getCellLevel p ident"
  by (simp add: getCellLevel_def getCellOctant_initializeTreeGeometry
      m_tree_initializeTreeGeometry cong: if_cong)

text \<open>Below \<open>MAX_LEVEL\<close> the tables hold the values of the claim.\<close>

lemma evalCell_below_MAX_LEVEL:
  assumes "getCellLevel p ident = Inr l" and "l < tree_maxLevel (m_tree p)"
  shows "evalCellSize (initializeTreeGeometry p) ident = Inr (tree_L (m_tree p) / 2 ^ l)"
    and "evalCellVolume (initializeTreeGeometry p) ident
           = Inr ((tree_L (m_tree p) / 2 ^ l) ^ dimension p)"
  using assms
  by (simp_all add: evalCellSize_def evalCellVolume_def getCellLevel_initializeTreeGeometry
      subscript_def initializeTreeGeometry_lengths)
     (simp_all add: initializeTreeGeometry_def Let_def)

lemma evalCell_at_MAX_LEVEL:
  assumes "getCellLevel p ident = Inr (tree_maxLevel (m_tree p))"
  shows "evalCellSize (initializeTreeGeometry p) ident = Inl UndefinedBehaviour"
    and "evalCellVolume (initializeTreeGeometry p) ident = Inl UndefinedBehaviour"
  using assms
  by (simp_all add: evalCellSize_def evalCellVolume_def getCellLevel_initializeTreeGeometry
      subscript_def initializeTreeGeometry_lengths)

text \<open>
  C7.  The claim asks for \<open>L \<cdot> 2^(-l)\<close> at every level up to and including \<open>MAX_LEVEL\<close>.
  \<open>initializeTreeGeometry\<close> fills the tables for the levels \<open>0, \<dots>, MAX_LEVEL - 1\<close> only
  (its loop runs while \<open>i < maxLevels\<close>).  With \<open>MAX_LEVEL = 20\<close> the tables have 20
  entries, and for a cell at level 20 the functions read the entry of index 20, past the
  end of the vector.
\<close>

theorem evalCell_at_MAX_LEVEL_reads_past_table:
  "tree_maxLevel (m_tree deepCellPatch) = 20
   \<and> getCellLevel deepCellPatch 0 = Inr 20
   \<and> length (m_tree_dh deepCellPatch) = 20
   \<and> evalCellSize deepCellPatch 0 = Inl UndefinedBehaviour
   \<and> evalCellVolume deepCellPatch 0 = Inl UndefinedBehaviour"
proof -
  have lvl: "getCellLevel deepCellPatch 0 = Inr 20"
    by (simp add: getCellLevel_def getCellOctant_def deepCellPatch_def singleCellPatch_def
        initializeTreeGeometry_def Let_def pixelCell_def map_at_def rootTree_def)
  have len: "length (m_tree_dh deepCellPatch) = 20" "length (m_tree_volume deepCellPatch) = 20"
    by (simp_all add: deepCellPatch_def initializeTreeGeometry_lengths rootTree_def)
  have mx: "tree_maxLevel (m_tree deepCellPatch) = 20"
    by (simp add: deepCellPatch_def initializeTreeGeometry_def Let_def rootTree_def)
  show ?thesis
    using lvl len mx by (simp add: evalCellSize_def evalCellVolume_def subscript_def)
qed

subsection \<open>Markers\<close>

text \<open>
  C6.  For a cell of the patch that is interior and linked to the internal octant \<open>t\<close>,
  marking it for refinement or coarsening and switching its balance flag return true and
  store the marker, respectively the flag, on octant \<open>t\<close> and change nothing else.  For a
  ghost cell, linked to a ghost octant, the three calls return false and the patch,
  octree included, is the one passed in.
\<close>

theorem marker_accepted_iff_interior:
  assumes "m_cells p ident = Some cell"
  shows "(m_interior cell \<and> m_cellToOctant p ident = Some t \<longrightarrow>
            set_marker p ident v = Inr (True, p\<lparr>m_tree := setMarker t v (m_tree p)\<rparr>)
          \<and> tree_marker (setMarker t v (m_tree p)) t = v
          \<and> markCellForRefinement p ident = Inr (True, p\<lparr>m_tree := setMarker t 1 (m_tree p)\<rparr>)
          \<and> markCellForCoarsening p ident = Inr (True, p\<lparr>m_tree := setMarker t (- 1) (m_tree p)\<rparr>)
          \<and> enableCellBalancing p ident b = Inr (True, p\<lparr>m_tree := setBalance t b (m_tree p)\<rparr>)
          \<and> tree_balance (setBalance t b (m_tree p)) t = b)
       \<and> (\<not> m_interior cell \<and> m_cellToGhost p ident = Some g \<longrightarrow>
            set_marker p ident v = Inr (False, p)
          \<and> markCellForRefinement p ident = Inr (False, p)
          \<and> markCellForCoarsening p ident = Inr (False, p)
          \<and> enableCellBalancing p ident b = Inr (False, p))"
  using assms
  by (simp add: set_marker_def markCellForRefinement_def markCellForCoarsening_def
      enableCellBalancing_def getCellOctant_def map_at_def setMarker_def setBalance_def)

theorem marker_accepted_iff_interior_witness:
  "m_cells ghostCellPatch 0 = Some (pixelCell True [0, 1, 2, 3])
   \<and> m_interior (pixelCell True [0, 1, 2, 3]) \<and> m_cellToOctant ghostCellPatch 0 = Some 0
   \<and> markCellForRefinement ghostCellPatch 0
       = Inr (True, ghostCellPatch\<lparr>m_tree := setMarker 0 1 (m_tree ghostCellPatch)\<rparr>)
   \<and> m_cells ghostCellPatch 1 = Some (pixelCell False [1, 4, 3, 5])
   \<and> \<not> m_interior (pixelCell False [1, 4, 3, 5]) \<and> m_cellToGhost ghostCellPatch 1 = Some 0
   \<and> markCellForRefinement ghostCellPatch 1 = Inr (False, ghostCellPatch)
   \<and> enableCellBalancing ghostCellPatch 1 True = Inr (False, ghostCellPatch)"
proof -
  have c0: "m_cells ghostCellPatch 0 = Some (pixelCell True [0, 1, 2, 3])"
    and c1: "m_cells ghostCellPatch 1 = Some (pixelCell False [1, 4, 3, 5])"
    and o0: "m_cellToOctant ghostCellPatch 0 = Some 0"
    and g1: "m_cellToGhost ghostCellPatch 1 = Some 0"
    by (simp_all add: ghostCellPatch_def singleCellPatch_def initializeTreeGeometry_def Let_def)
  have i0: "m_interior (pixelCell True [0, 1, 2, 3])" and i1: "\<not> m_interior (pixelCell False [1, 4, 3, 5])"
    by (simp_all add: pixelCell_def)
  from marker_accepted_iff_interior [OF c0, of 0 1 True 0] i0 o0
  have r0: "markCellForRefinement ghostCellPatch 0
       = Inr (True, ghostCellPatch\<lparr>m_tree := setMarker 0 1 (m_tree ghostCellPatch)\<rparr>)"
    by simp
  from marker_accepted_iff_interior [OF c1, of 0 1 True 0] i1 g1
  have r1: "markCellForRefinement ghostCellPatch 1 = Inr (False, ghostCellPatch)"
    "enableCellBalancing ghostCellPatch 1 True = Inr (False, ghostCellPatch)"
    by simp_all
  from c0 c1 o0 g1 i0 i1 r0 r1 show ?thesis by simp
qed

subsection \<open>The loop of sync\<close>

lemma bindE_Inr_iff: "bindE x f = Inr y \<longleftrightarrow> (\<exists>v. x = Inr v \<and> f v = Inr y)"
  by (cases x) simp_all

declare sync_octants.simps [simp del]

lemma create_uncached:
  "\<not> cachedType t \<Longrightarrow> create data t e r = (length data, data @ [newInfo t e r])"
  by (simp add: create_def)

lemma trackImport_refinement:
  "trackImport p TYPE_REFINEMENT (2 ^ dimension p)
     (added @ map (\<lambda>i. OctantInfo_of i True) [t..<t + 2 ^ dimension p]) (tree_mapping (m_tree p) t) data
   = data @ [refinementRecord p t]"
  by (simp add: trackImport_def create_uncached cachedType_def addCurrent_def addPrevious_def
      newInfo_def refinementRecord_def OctantInfo_of_def comp_def)

lemma trackImport_coarsening:
  "\<exists>e. trackImport p TYPE_COARSENING n added mapper data = data @ [e] \<and> info_type e = TYPE_COARSENING"
  by (simp add: trackImport_def create_uncached cachedType_def addCurrent_def addPrevious_def
      newInfo_def)

text \<open>One step of the loop after a mapped adaption on a non-empty patch.\<close>

lemma sync_step_mapped:
  assumes "sync_step p False True t st = Inr (t', st')"
    and "m_lastTreeOperation p = OP_ADAPTION_MAPPED"
  shows "(tree_isNewR (m_tree p) t \<longrightarrow>
            t' = t + 2 ^ dimension p \<and> adaptionData st' = adaptionData st @ [refinementRecord p t])
       \<and> (\<not> tree_isNewR (m_tree p) t \<longrightarrow>
            t' = t + 1 \<and> (adaptionData st' = adaptionData st
               \<or> (\<exists>e. adaptionData st' = adaptionData st @ [e] \<and> info_type e = TYPE_COARSENING)))"
proof (cases "tree_isNewR (m_tree p) t")
  case True
  then have c: "classify p False t (tree_mapping (m_tree p) t) = Inr TYPE_REFINEMENT"
    using assms(2) by (simp add: classify_def)
  show ?thesis
    using assms(1) True
    by (auto simp: sync_step_def c Let_def bindE_Inr_iff trackImport_refinement split: prod.splits)
next
  case False
  show ?thesis
  proof (cases "tree_isNewC (m_tree p) t")
    case True
    then have c: "classify p False t (tree_mapping (m_tree p) t) = Inr TYPE_COARSENING"
      using assms(2) False by (simp add: classify_def)
    obtain e where e: "trackImport p TYPE_COARSENING 1
        (addedOctants st @ map (\<lambda>i. OctantInfo_of i True) [t..<t + 1]) (tree_mapping (m_tree p) t) (adaptionData st)
       = adaptionData st @ [e]" "info_type e = TYPE_COARSENING"
      using trackImport_coarsening by blast
    show ?thesis
      using assms(1) False e
      by (auto simp: sync_step_def c Let_def bindE_Inr_iff split: prod.splits)
  next
    case nc: False
    have "classify p False t (tree_mapping (m_tree p) t) = Inr TYPE_RENUMBERING
        \<or> classify p False t (tree_mapping (m_tree p) t) = Inr TYPE_NONE
        \<or> classify p False t (tree_mapping (m_tree p) t) = Inl UndefinedBehaviour"
      using assms(2) False nc by (simp add: classify_def split: list.splits)
    then show ?thesis
      using assms(1) False
      by (auto simp: sync_step_def Let_def bindE_Inr_iff split: prod.splits list.splits)
  qed
qed


lemma sync_octants_refinements:
  assumes "sync_octants p importAll trackChanges t st = Inr st'"
    and "\<not> importAll" and "trackChanges"
    and "m_lastTreeOperation p = OP_ADAPTION_MAPPED"
  shows "\<exists>new. adaptionData st' = adaptionData st @ new
       \<and> (\<forall>e \<in> set new. info_type e = TYPE_REFINEMENT \<longrightarrow>
             (\<exists>t0. t \<le> t0 \<and> t0 < tree_numOctants (m_tree p) \<and> tree_isNewR (m_tree p) t0
                  \<and> e = refinementRecord p t0))
       \<and> (\<forall>t1. t \<le> t1 \<and> t1 < tree_numOctants (m_tree p) \<and> tree_isNewR (m_tree p) t1 \<longrightarrow>
             (\<exists>t0. t0 \<le> t1 \<and> t1 < t0 + 2 ^ dimension p \<and> tree_isNewR (m_tree p) t0
                  \<and> refinementRecord p t0 \<in> set new))"
  using assms
proof (induction p importAll trackChanges t st arbitrary: st' rule: sync_octants.induct)
  case (1 p importAll trackChanges t st)
  show ?case
  proof (cases "t < tree_numOctants (m_tree p)")
    case False
    then have "st' = st" using "1.prems"(1) by (simp add: sync_octants.simps [of p importAll trackChanges t])
    with False show ?thesis by simp
  next
    case True
    from "1.prems"(1) True obtain t' st'' where
      step: "sync_step p importAll trackChanges t st = Inr (t', st'')"
      and rest: "sync_octants p importAll trackChanges t' st'' = Inr st'"
      by (auto simp: sync_octants.simps [of p importAll trackChanges t] split: sum.splits)
    from "1.IH" [OF True step refl rest "1.prems"(2,3,4)]
    obtain new where new: "adaptionData st' = adaptionData st'' @ new"
      and sound: "\<forall>e \<in> set new. info_type e = TYPE_REFINEMENT \<longrightarrow>
             (\<exists>t0. t' \<le> t0 \<and> t0 < tree_numOctants (m_tree p) \<and> tree_isNewR (m_tree p) t0
                  \<and> e = refinementRecord p t0)"
      and cover: "\<forall>t1. t' \<le> t1 \<and> t1 < tree_numOctants (m_tree p) \<and> tree_isNewR (m_tree p) t1 \<longrightarrow>
             (\<exists>t0. t0 \<le> t1 \<and> t1 < t0 + 2 ^ dimension p \<and> tree_isNewR (m_tree p) t0
                  \<and> refinementRecord p t0 \<in> set new)"
      by blast
    from step "1.prems"(2,3) have step': "sync_step p False True t st = Inr (t', st'')" by simp
    note sm = sync_step_mapped [OF step' "1.prems"(4)]
    show ?thesis
    proof (cases "tree_isNewR (m_tree p) t")
      case isR: True
      with sm have t': "t' = t + 2 ^ dimension p"
        and d: "adaptionData st'' = adaptionData st @ [refinementRecord p t]" by simp_all
      have "adaptionData st' = adaptionData st @ (refinementRecord p t # new)"
        using new d by simp
      moreover have "\<forall>e \<in> set (refinementRecord p t # new). info_type e = TYPE_REFINEMENT \<longrightarrow>
             (\<exists>t0. t \<le> t0 \<and> t0 < tree_numOctants (m_tree p) \<and> tree_isNewR (m_tree p) t0
                  \<and> e = refinementRecord p t0)"
        using sound True isR t' by (auto intro: exI [of _ t]) (metis le_add1 le_trans)
      moreover have "\<forall>t1. t \<le> t1 \<and> t1 < tree_numOctants (m_tree p) \<and> tree_isNewR (m_tree p) t1 \<longrightarrow>
             (\<exists>t0. t0 \<le> t1 \<and> t1 < t0 + 2 ^ dimension p \<and> tree_isNewR (m_tree p) t0
                  \<and> refinementRecord p t0 \<in> set (refinementRecord p t # new))"
      proof (intro allI impI)
        fix t1 assume a: "t \<le> t1 \<and> t1 < tree_numOctants (m_tree p) \<and> tree_isNewR (m_tree p) t1"
        show "\<exists>t0. t0 \<le> t1 \<and> t1 < t0 + 2 ^ dimension p \<and> tree_isNewR (m_tree p) t0
                  \<and> refinementRecord p t0 \<in> set (refinementRecord p t # new)"
        proof (cases "t1 < t'")
          case True
          then show ?thesis using a isR t' by (intro exI [of _ t]) simp
        next
          case False
          then have "t' \<le> t1" by simp
          with cover a obtain t0 where "t0 \<le> t1" "t1 < t0 + 2 ^ dimension p" "tree_isNewR (m_tree p) t0"
            "refinementRecord p t0 \<in> set new" by blast
          then show ?thesis by (intro exI [of _ t0]) simp
        qed
      qed
      ultimately show ?thesis by blast
    next
      case notR: False
      with sm have t': "t' = t + 1"
        and d: "adaptionData st'' = adaptionData st
               \<or> (\<exists>e. adaptionData st'' = adaptionData st @ [e] \<and> info_type e = TYPE_COARSENING)"
        by simp_all
      from d obtain pre where pre: "adaptionData st'' = adaptionData st @ pre"
        "\<forall>e \<in> set pre. info_type e \<noteq> TYPE_REFINEMENT"
        by (elim disjE exE) (auto intro: that [of "[]"])
      have "adaptionData st' = adaptionData st @ (pre @ new)" using new pre by simp
      moreover have "\<forall>e \<in> set (pre @ new). info_type e = TYPE_REFINEMENT \<longrightarrow>
             (\<exists>t0. t \<le> t0 \<and> t0 < tree_numOctants (m_tree p) \<and> tree_isNewR (m_tree p) t0
                  \<and> e = refinementRecord p t0)"
        using sound pre(2) t' by (auto) (metis Suc_leD)
      moreover have "\<forall>t1. t \<le> t1 \<and> t1 < tree_numOctants (m_tree p) \<and> tree_isNewR (m_tree p) t1 \<longrightarrow>
             (\<exists>t0. t0 \<le> t1 \<and> t1 < t0 + 2 ^ dimension p \<and> tree_isNewR (m_tree p) t0
                  \<and> refinementRecord p t0 \<in> set (pre @ new))"
      proof (intro allI impI)
        fix t1 assume a: "t \<le> t1 \<and> t1 < tree_numOctants (m_tree p) \<and> tree_isNewR (m_tree p) t1"
        with notR have "t1 \<noteq> t" by auto
        with a t' have "t' \<le> t1" by simp
        with cover a obtain t0 where "t0 \<le> t1" "t1 < t0 + 2 ^ dimension p" "tree_isNewR (m_tree p) t0"
            "refinementRecord p t0 \<in> set new" by blast
        then show "\<exists>t0. t0 \<le> t1 \<and> t1 < t0 + 2 ^ dimension p \<and> tree_isNewR (m_tree p) t0
                  \<and> refinementRecord p t0 \<in> set (pre @ new)" by (intro exI [of _ t0]) simp
      qed
      ultimately show ?thesis by blast
    qed
  qed
qed
subsection \<open>Records of other types leave the refinement records alone\<close>

lemma findInfo_Some:
  "findInfo data t e r k = Some i \<Longrightarrow>
     \<exists>j < length data. i = k + j \<and> info_type (data ! j) = t"
proof (induction data arbitrary: k)
  case Nil
  then show ?case by simp
next
  case (Cons x xs)
  show ?case
  proof (cases "info_type x = t \<and> info_entity x = e \<and> info_rank x = r")
    case True
    with Cons.prems show ?thesis by (intro exI [of _ 0]) simp
  next
    case False
    with Cons.prems have "findInfo xs t e r (k + 1) = Some i" by auto
    from Cons.IH [OF this] obtain j where "j < length xs" "i = k + 1 + j" "info_type (xs ! j) = t"
      by blast
    then show ?thesis by (intro exI [of _ "Suc j"]) simp
  qed
qed

lemma create_result:
  assumes "create data t e r = (i, data')" and "t \<noteq> TYPE_REFINEMENT"
  shows "i < length data' \<and> info_type (data' ! i) = t
       \<and> (\<exists>new. data' = data @ new \<and> (\<forall>x \<in> set new. info_type x = t))"
proof (cases "cachedType t \<and> findInfo data t e r 0 \<noteq> None")
  case True
  then obtain j where j: "findInfo data t e r 0 = Some j" by auto
  with True assms have "i = j" "data' = data" by (simp_all add: create_def)
  with findInfo_Some [OF j] show ?thesis by auto
next
  case False
  with assms have "i = length data" "data' = data @ [newInfo t e r]"
    by (auto simp: create_def split: option.splits if_splits)
  then show ?thesis by (simp add: newInfo_def)
qed

lemma refinement_in_update:
  assumes "i < length data" and "info_type (data ! i) \<noteq> TYPE_REFINEMENT"
    and "info_type y \<noteq> TYPE_REFINEMENT" and "info_type x = TYPE_REFINEMENT"
  shows "x \<in> set (data[i := y]) \<longleftrightarrow> x \<in> set data"
proof
  assume "x \<in> set (data[i := y])"
  then have "x \<in> insert y (set data)" using set_update_subset_insert by fastforce
  with assms(3,4) show "x \<in> set data" by auto
next
  assume "x \<in> set data"
  then obtain j where j: "j < length data" "data ! j = x" by (auto simp: in_set_conv_nth)
  with assms(2,4) have "j \<noteq> i" by auto
  with j have "data[i := y] ! j = x" by simp
  with j(1) show "x \<in> set (data[i := y])" by (metis length_list_update nth_mem)
qed

lemma addPrevious_refinement:
  assumes "i < length data" and "info_type (data ! i) \<noteq> TYPE_REFINEMENT"
    and "info_type x = TYPE_REFINEMENT"
  shows "x \<in> set (addPrevious i ids data) \<longleftrightarrow> x \<in> set data"
  unfolding addPrevious_def by (rule refinement_in_update) (use assms in simp_all)

lemma addCurrent_refinement:
  assumes "i < length data" and "info_type (data ! i) \<noteq> TYPE_REFINEMENT"
    and "info_type x = TYPE_REFINEMENT"
  shows "x \<in> set (addCurrent i ids data) \<longleftrightarrow> x \<in> set data"
  unfolding addCurrent_def by (rule refinement_in_update) (use assms in simp_all)

text \<open>Opening (or finding) a record of another type and appending to it.\<close>

lemma create_addPrevious_refinement:
  assumes "create data t e r = (i, data')" and "t \<noteq> TYPE_REFINEMENT"
    and "info_type x = TYPE_REFINEMENT"
  shows "x \<in> set (addPrevious i ids data') \<longleftrightarrow> x \<in> set data"
proof -
  from create_result [OF assms(1,2)] obtain new where
    i: "i < length data'" "info_type (data' ! i) = t" and
    new: "data' = data @ new" "\<forall>x \<in> set new. info_type x = t" by blast
  have "x \<in> set (addPrevious i ids data') \<longleftrightarrow> x \<in> set data'"
    by (rule addPrevious_refinement) (use i assms in simp_all)
  also have "\<dots> \<longleftrightarrow> x \<in> set data" using new assms(2,3) by auto
  finally show ?thesis .
qed

lemma create_addCurrent_refinement:
  assumes "create data t e r = (i, data')" and "t \<noteq> TYPE_REFINEMENT"
    and "info_type x = TYPE_REFINEMENT"
  shows "x \<in> set (addCurrent i ids data') \<longleftrightarrow> x \<in> set data"
proof -
  from create_result [OF assms(1,2)] obtain new where
    i: "i < length data'" "info_type (data' ! i) = t" and
    new: "data' = data @ new" "\<forall>x \<in> set new. info_type x = t" by blast
  have "x \<in> set (addCurrent i ids data') \<longleftrightarrow> x \<in> set data'"
    by (rule addCurrent_refinement) (use i assms in simp_all)
  also have "\<dots> \<longleftrightarrow> x \<in> set data" using new assms(2,3) by auto
  finally show ?thesis .
qed

lemma trackDeleted_refinement:
  assumes "trackDeleted p deleted (data, removed) = Inr (data', removed')"
    and "info_type x = TYPE_REFINEMENT"
  shows "x \<in> set data' \<longleftrightarrow> x \<in> set data"
  using assms
proof (induction deleted arbitrary: data removed)
  case Nil
  then show ?case by simp
next
  case (Cons d rest)
  define data1 where "data1 =
     (if di_trigger d = TYPE_DELETION \<or> di_trigger d = TYPE_PARTITION_SEND
      then (let (infoId, data) = create data (di_trigger d) ENTITY_CELL (di_rank d)
            in addPrevious infoId [di_cellId d] data)
      else data)"
  have d1: "x \<in> set data1 \<longleftrightarrow> x \<in> set data"
  proof (cases "di_trigger d = TYPE_DELETION \<or> di_trigger d = TYPE_PARTITION_SEND")
    case False
    then show ?thesis by (simp add: data1_def)
  next
    case True
    obtain i dd where c: "create data (di_trigger d) ENTITY_CELL (di_rank d) = (i, dd)"
      by (cases "create data (di_trigger d) ENTITY_CELL (di_rank d)")
    have ne: "di_trigger d \<noteq> TYPE_REFINEMENT" using True by auto
    from create_addPrevious_refinement [OF c ne Cons.prems(2)] True c
    show ?thesis by (simp add: data1_def)
  qed
  from Cons.prems(1) obtain cell where
    "trackDeleted p rest (data1, fold List.insert (filter (\<lambda>i. i \<ge> 0) (getInterfaces cell)) removed)
       = Inr (data', removed')"
    by (auto simp: bindE_Inr_iff Let_def data1_def)
  from Cons.IH [OF this Cons.prems(2)] d1 show ?case by simp
qed

lemma trackDeletion_refinement:
  assumes "trackDeletion p deleted data = Inr data'" and "info_type x = TYPE_REFINEMENT"
  shows "x \<in> set data' \<longleftrightarrow> x \<in> set data"
proof -
  from assms(1) obtain d1 removed where
    td: "trackDeleted p deleted (data, []) = Inr (d1, removed)"
    by (cases "trackDeleted p deleted (data, [])") (auto simp: trackDeletion_def)
  obtain i dd where c: "create d1 TYPE_DELETION ENTITY_INTERFACE currentRank = (i, dd)"
    by (cases "create d1 TYPE_DELETION ENTITY_INTERFACE currentRank")
  with assms(1) td have "data' = addPrevious i removed dd" by (simp add: trackDeletion_def)
  with create_addPrevious_refinement [OF c _ assms(2)] have "x \<in> set data' \<longleftrightarrow> x \<in> set d1" by simp
  with trackDeleted_refinement [OF td assms(2)] show ?thesis by simp
qed

subsection \<open>The translation of the current ids\<close>

lemma mapE_Inr:
  "mapE f xs = Inr ys \<Longrightarrow> list_all2 (\<lambda>x y. f x = Inr y) xs ys"
  by (induction xs arbitrary: ys) (auto simp: bindE_Inr_iff)

lemma list_all2_right:
  "list_all2 P xs ys \<Longrightarrow> y \<in> set ys \<Longrightarrow> \<exists>x \<in> set xs. P x y"
  by (induction rule: list_all2_induct) auto

lemma list_all2_left:
  "list_all2 P xs ys \<Longrightarrow> x \<in> set xs \<Longrightarrow> \<exists>y \<in> set ys. P x y"
  by (induction rule: list_all2_induct) auto

lemma mapE_map_at:
  assumes "mapE (\<lambda>k. map_at m (g k)) xs = Inr ys"
  shows "ys = map (\<lambda>k. the (m (g k))) xs \<and> (\<forall>k \<in> set xs. m (g k) \<noteq> None)"
  using assms
  by (induction xs arbitrary: ys) (auto simp: bindE_Inr_iff map_at_def split: option.splits)

lemma translateInfo_type:
  "translateInfo p x = Inr y \<Longrightarrow>
     info_type y = info_type x \<and> info_entity y = info_entity x \<and> info_previous y = info_previous x"
  by (auto simp: translateInfo_def bindE_Inr_iff split: if_splits)

lemma translateInfo_refinementRecord:
  assumes "translateInfo p' (refinementRecord p t) = Inr y"
  shows "info_current y = map (\<lambda>i. the (m_octantToCell p' i)) [t..<t + 2 ^ dimension p]
       \<and> (\<forall>i \<in> set [t..<t + 2 ^ dimension p]. m_octantToCell p' i \<noteq> None)
       \<and> info_type y = TYPE_REFINEMENT \<and> info_entity y = ENTITY_CELL
       \<and> info_previous y = info_previous (refinementRecord p t)"
proof -
  from assms obtain cur where
    cur: "mapE (\<lambda>treeId. map_at (m_octantToCell p') (nat treeId)) (map int [t..<t + 2 ^ dimension p]) = Inr cur"
    and y: "y = (refinementRecord p t)\<lparr>info_current := cur\<rparr>"
    by (auto simp: translateInfo_def refinementRecord_def bindE_Inr_iff)
  from mapE_map_at [OF cur] have
    "cur = map (\<lambda>i. the (m_octantToCell p' i)) [t..<t + 2 ^ dimension p]"
    "\<forall>i \<in> set [t..<t + 2 ^ dimension p]. m_octantToCell p' i \<noteq> None"
    by (simp_all add: comp_def)
  with y show ?thesis by (simp add: refinementRecord_def)
qed

lemma completeTracking_refinement:
  assumes "completeTracking p createdCells data = Inr data'"
  shows "(\<forall>y \<in> set data'. info_type y = TYPE_REFINEMENT \<longrightarrow>
            (\<exists>x \<in> set data. translateInfo p x = Inr y))
       \<and> (\<forall>x \<in> set data. info_type x = TYPE_REFINEMENT \<longrightarrow>
            (\<exists>y \<in> set data'. translateInfo p x = Inr y))"
proof -
  from assms obtain d1 where m: "mapE (translateInfo p) data = Inr d1"
    by (cases "mapE (translateInfo p) data") (auto simp: completeTracking_def)
  with assms have r: "(if createdCells \<noteq> []
       then bindE (createdInterfacesOf p createdCells []) (\<lambda>createdInterfaces.
              let (infoId, data) = create d1 TYPE_CREATION ENTITY_INTERFACE currentRank
              in Inr (addCurrent infoId createdInterfaces data))
       else Inr d1) = Inr data'"
    by (simp add: completeTracking_def)
  have same: "y \<in> set data' \<longleftrightarrow> y \<in> set d1" if "info_type y = TYPE_REFINEMENT" for y
  proof (cases "createdCells \<noteq> []")
    case False
    with r show ?thesis by simp
  next
    case True
    obtain i dd where c: "create d1 TYPE_CREATION ENTITY_INTERFACE currentRank = (i, dd)"
      by (cases "create d1 TYPE_CREATION ENTITY_INTERFACE currentRank")
    with r True obtain ci where "data' = addCurrent i ci dd"
      by (auto simp: bindE_Inr_iff)
    with create_addCurrent_refinement [OF c _ that] show ?thesis by simp
  qed
  from mapE_Inr [OF m] have la: "list_all2 (\<lambda>x y. translateInfo p x = Inr y) data d1" .
  show ?thesis
  proof (intro conjI ballI impI)
    fix y assume "y \<in> set data'" "info_type y = TYPE_REFINEMENT"
    with same have "y \<in> set d1" by simp
    with la show "\<exists>x \<in> set data. translateInfo p x = Inr y"
      by (rule list_all2_right)
  next
    fix x assume x: "x \<in> set data" "info_type x = TYPE_REFINEMENT"
    from list_all2_left [OF la x(1)] obtain y where y: "y \<in> set d1" "translateInfo p x = Inr y"
      by blast
    from translateInfo_type [OF y(2)] x(2) have "info_type y = TYPE_REFINEMENT" by simp
    with same y show "\<exists>y \<in> set data'. translateInfo p x = Inr y" by auto
  qed
qed

subsection \<open>Adaption without tracking\<close>

text \<open>
  \<open>_updateAdaption\<close> asks the octree for the mapping whenever the patch has cells, but
  records the operation as unmapped whenever the changes are not tracked.  On a patch
  with cells, an untracked adaption that changes the octree therefore always ends in the
  exception of \<open>sync\<close>.
\<close>

lemma updateAdaption_untracked_throws:
  assumes "getCellCount p \<noteq> 0" and "adapt True (m_tree p) = (True, tree)"
  shows "updateAdaption adapt cellTypeInfo interfaceTypeInfo updateInterfaces p False
           = Inl RuntimeError"
  using assms by (simp add: updateAdaption_def sync_def getCellCount_def Let_def)

lemma getCellCount_singleCellPatch: "getCellCount singleCellPatch = 1"
  by (simp add: getCellCount_def singleCellPatch_def initializeTreeGeometry_def Let_def)

text \<open>
  Claim C1.  The single cell of a 2-D patch is marked and the patch is updated without
  tracking: the patch is not empty, the octree is adapted with the mapping built, and yet
  the call throws the runtime error of \<open>sync\<close> instead of returning a list of records.
\<close>

theorem untracked_updateAdaption_throws:
  "getCellCount singleCellPatch \<noteq> 0
   \<and> updateAdaption adaptRefine pixelInfo lineInfo noInterfaceBuilder singleCellPatch False
       = Inl RuntimeError"
proof -
  have "getCellCount singleCellPatch \<noteq> 0" by (simp add: getCellCount_singleCellPatch)
  moreover from this have
    "updateAdaption adaptRefine pixelInfo lineInfo noInterfaceBuilder singleCellPatch False
       = Inl RuntimeError"
    by (rule updateAdaption_untracked_throws) (simp add: adaptRefine_def)
  ultimately show ?thesis by simp
qed

subsection \<open>Adjacencies\<close>

lemma findItem_found: "0 \<le> findItem run x i \<longleftrightarrow> x \<in> set run"
  by (induction run arbitrary: i) auto

lemma long_to_int_in_range:
  "- (2 ^ 31) \<le> x \<Longrightarrow> x < 2 ^ 31 \<Longrightarrow> long_to_int x = x"
  by (simp add: long_to_int_def)

text \<open>An id that fits an \<^verbatim>\<open>int\<close> is pushed at most once on a run.\<close>

lemma pushAdjacency_distinct:
  assumes "pushAdjacency cell face a = Inr cell'" and "- (2 ^ 31) \<le> a" and "a < 2 ^ 31"
    and "distinct (m_adjacencies cell ! face)"
  shows "distinct (m_adjacencies cell' ! face)
       \<and> set (m_adjacencies cell' ! face) = insert a (set (m_adjacencies cell ! face))"
  using assms
  by (auto simp: pushAdjacency_def findAdjacency_def pushBackItem_def subscript_def
      bindE_Inr_iff long_to_int_in_range findItem_found split: if_splits)

text \<open>An id from \<open>2^31\<close> on is not found in the run that holds it, and is pushed again.\<close>

lemma pushAdjacency_large_id:
  "map_sum (\<lambda>e. e) m_adjacencies
     (pushAdjacency (gridCell [0, 1, 3, 4] [[2147483648]]) 0 2147483648)
   = Inr [[2147483648, 2147483648]]"
  by (simp add: pushAdjacency_def findAdjacency_def pushBackItem_def subscript_def
      gridCell_def long_to_int_def)

lemmas ua_defs = updateAdjacencies_def gridPatch_def gridTree_def rootTree_def gridCell_def
  gridNeighbours_def sortByLevel.simps getCellLevel_def getCellOctant_def map_at_def cellRef_def
  setCell_def pushAdjacency_def findAdjacency_def subscript_def pushBackItem_def long_to_int_def
  getOctantId_def OctantInfo_of_def adjacenciesOf_def Let_def upt_rec

text \<open>
  Claim C4.  The four cells of \<open>gridPatch\<close> have their adjacencies built; the adjacencies
  are updated once more, without a reset.  With the ids 0 to 3 every run stays as it is.
  With the ids \<open>2^31\<close> to \<open>2^31 + 3\<close> the first cell ends with each of its two neighbours
  twice in the run of the face they share.
\<close>

theorem updateAdjacencies_duplicates_large_ids:
  "adjacenciesOf (Inr (gridPatch 2147483648)) 2147483648
     = Some [[], [2147483649], [], [2147483650]]
   \<and> adjacenciesOf (updateAdjacencies (gridPatch 2147483648)
        [2147483648, 2147483649, 2147483650, 2147483651] False) 2147483648
     = Some [[], [2147483649, 2147483649], [], [2147483650, 2147483650]]
   \<and> adjacenciesOf (updateAdjacencies (gridPatch 0) [0, 1, 2, 3] False) 0
     = Some [[], [1], [], [2]]"
proof -
  have a: "adjacenciesOf (Inr (gridPatch 2147483648)) 2147483648
     = Some [[], [2147483649], [], [2147483650]]"
    by (simp add: adjacenciesOf_def gridPatch_def gridCell_def)
  have b: "adjacenciesOf (updateAdjacencies (gridPatch 2147483648)
        [2147483648, 2147483649, 2147483650, 2147483651] False) 2147483648
     = Some [[], [2147483649, 2147483649], [], [2147483650, 2147483650]]"
    by (simp add: ua_defs)
  have c: "adjacenciesOf (updateAdjacencies (gridPatch 0) [0, 1, 2, 3] False) 0
     = Some [[], [1], [], [2]]"
    by (simp add: ua_defs)
  from a b c show ?thesis by simp
qed

subsection \<open>The refinement records that sync returns\<close>

lemma translateInfo_refinementEvent:
  assumes "translateInfo p' (refinementRecord p t) = Inr e"
    and "length (tree_mapping (m_tree p) t) = 1"
  shows "refinementEvent p p' t e"
proof -
  note r = translateInfo_refinementRecord [OF assms(1)]
  from r have "list_all (\<lambda>i. m_octantToCell p' i \<noteq> None) [t..<t + 2 ^ dimension p]"
    by (simp add: list_all_iff)
  with r assms(2) show ?thesis
    by (simp add: refinementEvent_def refinementRecord_def)
qed

text \<open>The stages of \<open>sync\<close> with tracking, after a mapped adaption of a patch with cells.\<close>

lemma sync_stages:
  assumes "sync cellTypeInfo interfaceTypeInfo updateInterfaces p True = Inr (events, p')"
    and "getCellCount p \<noteq> 0"
  shows "\<exists>st p1 data createdCells.
           sync_octants p False True 0
             \<lparr>unmappedOctants = replicate (card (dom (m_octantToCell p))) True, addedOctants = [],
              renumberedOctants = [], deletedOctants = [], adaptionData = []\<rparr> = Inr st
         \<and> (data = adaptionData st
              \<or> trackDeletion p1 (deletedOctants (removeUnmapped p (card (dom (m_octantToCell p))) st))
                   (adaptionData st) = Inr data)
         \<and> completeTracking p' createdCells data = Inr events"
  using assms
  by (auto simp: sync_def Let_def bindE_Inr_iff removeUnmapped_def split: if_splits prod.splits)

subsection \<open>Scenario S1\<close>

lemma upt4: "[0..<4] = [0, 1, 2, 3]" "[0..<Suc 0] = [0]" "[0..<1] = [0]"
  by (simp_all add: upt_rec)

lemma rp_fields:
  "m_cells refinedCellPatch = [0 \<mapsto> pixelCell True [0, 1, 2, 3]]"
  "m_octantToCell refinedCellPatch = [0 \<mapsto> 0]"
  "m_cellToOctant refinedCellPatch = [0 \<mapsto> 0]"
  "m_ghostToCell refinedCellPatch = Map.empty"
  "m_cellToGhost refinedCellPatch = Map.empty"
  "m_interfaces refinedCellPatch = Map.empty"
  "m_vertices refinedCellPatch = [0 \<mapsto> vec 0 0 0, 1 \<mapsto> vec 1 0 0, 2 \<mapsto> vec 0 1 0, 3 \<mapsto> vec 1 1 0]"
  "m_tree refinedCellPatch = refinedTree"
  "m_lastTreeOperation refinedCellPatch = OP_ADAPTION_MAPPED"
  "dimension refinedCellPatch = 2"
  "m_cellIdGenerator refinedCellPatch = 1"
  "m_vertexIdGenerator refinedCellPatch = 4"
  by (simp_all add: refinedCellPatch_def singleCellPatch_def initializeTreeGeometry_def Let_def)

lemma rt_fields:
  "tree_numOctants refinedTree = 4"
  "tree_isNewR refinedTree t = (t < 4)"
  "tree_mapping refinedTree t = [(0, False, - 1)]"
  "tree_maxDepth refinedTree = 1"
  "tree_level refinedTree i = 1"
  "tree_findNeighbours refinedTree = gridNeighbours"
  "tree_oppface refinedTree f = (if even f then f + 1 else f - 1)"
  "tree_nodeMorton refinedTree internal i k = (i mod 2 + k mod 2) + 3 * (i div 2 + k div 2)"
  "tree_node refinedTree internal i k = vec (real (i mod 2 + k mod 2) / 2) (real (i div 2 + k div 2) / 2) 0"
  by (simp_all add: refinedTree_def rootTree_def)

lemmas sync_defs = sync_def getCellCount_def sync_octants.simps sync_step_def classify_def
  clearFlag_def trackImport_def create_def cachedType_def newInfo_def addCurrent_def addPrevious_def
  getOctantId_def OctantInfo_of_def removeUnmapped_def resetCellOctantMaps_def cellRef_def getCellOctant_def
  map_at_def generateCellId_def map_insert_def trackDeletion_def currentRank_def getInterfaces_def
  deleteCells_def deleteCell_def deleteInterfaces_all_def deleteVertices_all_def importCells_def
  addVertex_def addCell_def updateAdjacencies_def getCellLevel_def setCell_def pushAdjacency_def
  findAdjacency_def subscript_def pushBackItem_def long_to_int_def completeTracking_def translateInfo_def
  recordsOf_def Let_def upt4 rp_fields rt_fields pixelCell_def pixelInfo_def lineInfo_def noInterfaceBuilder_def
  gridNeighbours_def

text \<open>The single cell of a 2-D patch is refined and the patch is synchronised with
  tracking: one refinement record, from the cell 0 to four new cells, and the two records
  of the interfaces deleted and created (the interface builder of the example builds
  none).\<close>

lemma sync_refinedCellPatch:
  "recordsOf (sync pixelInfo lineInfo noInterfaceBuilder refinedCellPatch True)
  = Some [\<lparr>info_type = TYPE_REFINEMENT, info_entity = ENTITY_CELL, info_rank = - 1,
            info_previous = [0], info_current = [1, 2, 3, 4]\<rparr>,
          \<lparr>info_type = TYPE_DELETION, info_entity = ENTITY_INTERFACE, info_rank = - 1,
            info_previous = [], info_current = []\<rparr>,
          \<lparr>info_type = TYPE_CREATION, info_entity = ENTITY_INTERFACE, info_rank = - 1,
            info_previous = [], info_current = []\<rparr>]"
  by (simp add: sync_defs)

lemma recordsOf_Some: "recordsOf r = Some data \<Longrightarrow> \<exists>p'. r = Inr (data, p')"
  by (auto simp: recordsOf_def split: sum.splits)

text \<open>
  C2.  \<open>sync\<close> runs with tracking on a patch with cells, after a mapped adaption, and
  returns.  The mapping of every octant flagged \<open>is_new_R\<close> has one entry (the mapping is
  PABLO's).  Then every octant flagged \<open>is_new_R\<close> is one of the \<open>2 ^ dimension\<close> children
  of a refinement event among the records returned: its current ids are the cells of
  the \<open>2 ^ dimension\<close> consecutive tree ids of the children, its previous ids are the one
  cell of the pre-adaption octant.  And every record of type refinement that is returned
  is such an event, for children that start at an octant flagged \<open>is_new_R\<close>.
\<close>

theorem sync_refinement_events:
  assumes "sync cellTypeInfo interfaceTypeInfo updateInterfaces p True = Inr (events, p')"
    and "getCellCount p \<noteq> 0"
    and "m_lastTreeOperation p = OP_ADAPTION_MAPPED"
    and "\<forall>t. t < tree_numOctants (m_tree p) \<and> tree_isNewR (m_tree p) t
           \<longrightarrow> length (tree_mapping (m_tree p) t) = 1"
  shows "(\<forall>t1. t1 < tree_numOctants (m_tree p) \<and> tree_isNewR (m_tree p) t1 \<longrightarrow>
            (\<exists>t0 e. t0 \<le> t1 \<and> t1 < t0 + 2 ^ dimension p \<and> e \<in> set events
                   \<and> refinementEvent p p' t0 e))
       \<and> (\<forall>e \<in> set events. info_type e = TYPE_REFINEMENT \<longrightarrow>
            (\<exists>t0. t0 < tree_numOctants (m_tree p) \<and> tree_isNewR (m_tree p) t0
                 \<and> refinementEvent p p' t0 e))"
proof -
  from sync_stages [OF assms(1,2)] obtain st p1 data createdCells where
    loop: "sync_octants p False True 0
             \<lparr>unmappedOctants = replicate (card (dom (m_octantToCell p))) True, addedOctants = [],
              renumberedOctants = [], deletedOctants = [], adaptionData = []\<rparr> = Inr st"
    and del: "data = adaptionData st
              \<or> trackDeletion p1 (deletedOctants (removeUnmapped p (card (dom (m_octantToCell p))) st))
                   (adaptionData st) = Inr data"
    and fin: "completeTracking p' createdCells data = Inr events"
    by blast
  from sync_octants_refinements [OF loop _ _ assms(3)]
  have sound: "\<forall>x \<in> set (adaptionData st). info_type x = TYPE_REFINEMENT \<longrightarrow>
             (\<exists>t0. t0 < tree_numOctants (m_tree p) \<and> tree_isNewR (m_tree p) t0
                  \<and> x = refinementRecord p t0)"
    and cover: "\<forall>t1. t1 < tree_numOctants (m_tree p) \<and> tree_isNewR (m_tree p) t1 \<longrightarrow>
             (\<exists>t0. t0 \<le> t1 \<and> t1 < t0 + 2 ^ dimension p \<and> tree_isNewR (m_tree p) t0
                  \<and> refinementRecord p t0 \<in> set (adaptionData st))"
    by auto
  have same: "x \<in> set data \<longleftrightarrow> x \<in> set (adaptionData st)" if "info_type x = TYPE_REFINEMENT" for x
    using del trackDeletion_refinement [OF _ that] by blast
  note ct = completeTracking_refinement [OF fin]
  show ?thesis
  proof (intro conjI allI ballI impI)
    fix t1 assume t1: "t1 < tree_numOctants (m_tree p) \<and> tree_isNewR (m_tree p) t1"
    with cover obtain t0 where t0: "t0 \<le> t1" "t1 < t0 + 2 ^ dimension p" "tree_isNewR (m_tree p) t0"
      "refinementRecord p t0 \<in> set (adaptionData st)" by blast
    have ty: "info_type (refinementRecord p t0) = TYPE_REFINEMENT" by (simp add: refinementRecord_def)
    from t0(4) same [OF ty] have "refinementRecord p t0 \<in> set data" by simp
    with ct ty obtain e where e: "e \<in> set events" "translateInfo p' (refinementRecord p t0) = Inr e"
      by blast
    from t0(1) t1 have "t0 < tree_numOctants (m_tree p)" by simp
    with assms(4) t0(3) have "length (tree_mapping (m_tree p) t0) = 1" by simp
    from translateInfo_refinementEvent [OF e(2) this] e(1) t0(1,2)
    show "\<exists>t0 e. t0 \<le> t1 \<and> t1 < t0 + 2 ^ dimension p \<and> e \<in> set events
                   \<and> refinementEvent p p' t0 e" by blast
  next
    fix e assume e: "e \<in> set events" "info_type e = TYPE_REFINEMENT"
    with ct obtain x where x: "x \<in> set data" "translateInfo p' x = Inr e" by blast
    from translateInfo_type [OF x(2)] e(2) have ty: "info_type x = TYPE_REFINEMENT" by simp
    with x(1) same have "x \<in> set (adaptionData st)" by simp
    with sound ty obtain t0 where t0: "t0 < tree_numOctants (m_tree p)" "tree_isNewR (m_tree p) t0"
      "x = refinementRecord p t0" by blast
    with assms(4) have "length (tree_mapping (m_tree p) t0) = 1" by simp
    from translateInfo_refinementEvent [OF x(2) [unfolded t0(3)] this] t0(1,2)
    show "\<exists>t0. t0 < tree_numOctants (m_tree p) \<and> tree_isNewR (m_tree p) t0
                 \<and> refinementEvent p p' t0 e" by blast
  qed
qed

theorem sync_refinement_events_witness:
  "recordsOf (sync pixelInfo lineInfo noInterfaceBuilder refinedCellPatch True)
     = Some [\<lparr>info_type = TYPE_REFINEMENT, info_entity = ENTITY_CELL, info_rank = - 1,
               info_previous = [0], info_current = [1, 2, 3, 4]\<rparr>,
             \<lparr>info_type = TYPE_DELETION, info_entity = ENTITY_INTERFACE, info_rank = - 1,
               info_previous = [], info_current = []\<rparr>,
             \<lparr>info_type = TYPE_CREATION, info_entity = ENTITY_INTERFACE, info_rank = - 1,
               info_previous = [], info_current = []\<rparr>]
   \<and> getCellCount refinedCellPatch = 1
   \<and> m_lastTreeOperation refinedCellPatch = OP_ADAPTION_MAPPED
   \<and> tree_numOctants (m_tree refinedCellPatch) = 4
   \<and> tree_isNewR (m_tree refinedCellPatch) 2
   \<and> length (tree_mapping (m_tree refinedCellPatch) 2) = 1
   \<and> (\<exists>t0 e p'. t0 \<le> 2 \<and> 2 < t0 + 2 ^ dimension refinedCellPatch
          \<and> e \<in> set (the (recordsOf (sync pixelInfo lineInfo noInterfaceBuilder refinedCellPatch True)))
          \<and> refinementEvent refinedCellPatch p' t0 e
          \<and> length (info_current e) = 4 \<and> info_previous e = [0])"
proof -
  note ev = sync_refinedCellPatch
  from recordsOf_Some [OF ev] obtain p' where
    s: "sync pixelInfo lineInfo noInterfaceBuilder refinedCellPatch True
          = Inr (the (recordsOf (sync pixelInfo lineInfo noInterfaceBuilder refinedCellPatch True)), p')"
    by (auto simp: ev)
  have cnt: "getCellCount refinedCellPatch = 1" by (simp add: getCellCount_def rp_fields)
  then have ne: "getCellCount refinedCellPatch \<noteq> 0" by simp
  have op: "m_lastTreeOperation refinedCellPatch = OP_ADAPTION_MAPPED" by (simp add: rp_fields)
  have mp: "\<forall>t. t < tree_numOctants (m_tree refinedCellPatch) \<and> tree_isNewR (m_tree refinedCellPatch) t
           \<longrightarrow> length (tree_mapping (m_tree refinedCellPatch) t) = 1"
    by (simp add: rp_fields rt_fields)
  have two: "2 < tree_numOctants (m_tree refinedCellPatch) \<and> tree_isNewR (m_tree refinedCellPatch) 2"
    by (simp add: rp_fields rt_fields)
  from sync_refinement_events [OF s ne op mp] two
  obtain t0 e where e: "t0 \<le> 2" "2 < t0 + 2 ^ dimension refinedCellPatch"
    "e \<in> set (the (recordsOf (sync pixelInfo lineInfo noInterfaceBuilder refinedCellPatch True)))"
    "refinementEvent refinedCellPatch p' t0 e"
    by blast
  from e(4) have "length (info_current e) = 4" "info_previous e = [0]"
    by (simp_all add: refinementEvent_def rp_fields rt_fields getOctantId_def OctantInfo_of_def)
  with e have "\<exists>t0 e p'. t0 \<le> 2 \<and> 2 < t0 + 2 ^ dimension refinedCellPatch
          \<and> e \<in> set (the (recordsOf (sync pixelInfo lineInfo noInterfaceBuilder refinedCellPatch True)))
          \<and> refinementEvent refinedCellPatch p' t0 e
          \<and> length (info_current e) = 4 \<and> info_previous e = [0]" by blast
  with ev cnt op two mp show ?thesis by (simp add: rp_fields rt_fields)
qed

subsection \<open>deleteCells: which vertices stay\<close>

lemma cellRef_Inr: "cellRef p c = Inr cell \<longleftrightarrow> m_cells p c = Some cell"
  by (simp add: cellRef_def split: option.splits)

lemma deleteInterface_connect:
  "deleteInterface cell face i = Inr cell' \<Longrightarrow> m_connect cell' = m_connect cell"
  by (auto simp: deleteInterface_def bindE_Inr_iff)

lemma deleteAdjacency_connect:
  "deleteAdjacency cell face i = Inr cell' \<Longrightarrow> m_connect cell' = m_connect cell"
  by (auto simp: deleteAdjacency_def bindE_Inr_iff)

lemma danglingCellOf_alive:
  "0 \<le> danglingSide deadCells interface \<Longrightarrow> danglingCellOf deadCells interface \<notin> set deadCells"
  by (auto simp: danglingSide_def danglingCellOf_def split: if_splits)

lemma findItem_nth:
  "0 \<le> findItem run x k \<Longrightarrow>
     \<exists>j < length run. findItem run x k = int (k + j) \<and> run ! j = x"
proof (induction run arbitrary: k)
  case Nil
  then show ?case by simp
next
  case (Cons y ys)
  show ?case
  proof (cases "y = x")
    case True
    then show ?thesis by (intro exI [of _ 0]) simp
  next
    case False
    with Cons.prems have p: "0 \<le> findItem ys x (k + 1)" by simp
    from Cons.IH [OF p] obtain j where "j < length ys" "findItem ys x (k + 1) = int (k + 1 + j)"
      "ys ! j = x" by blast
    with False show ?thesis by (intro exI [of _ "Suc j"]) simp
  qed
qed

lemma eraseItem_keeps:
  assumes "eraseItem runs face (findItem (runs ! face) x 0) = Inr runs'"
    and "y \<in> set (concat runs)" and "y \<noteq> x"
  shows "y \<in> set (concat runs')"
proof -
  let ?r = "runs ! face"
  let ?i = "nat (findItem ?r x 0)"
  from assms(1) have f: "face < length runs" and i0: "0 \<le> findItem ?r x 0" and il: "?i < length ?r"
    and r': "runs' = runs[face := take ?i ?r @ drop (?i + 1) ?r]"
    by (auto simp: eraseItem_def split: if_splits)
  from findItem_nth [OF i0] have ix: "?r ! ?i = x" by auto
  from assms(2) obtain r where "r \<in> set runs" "y \<in> set r" by auto
  then obtain k where k: "k < length runs" "y \<in> set (runs ! k)"
    by (auto simp: in_set_conv_nth)
  show ?thesis
  proof (cases "k = face")
    case False
    with k r' have "y \<in> set (runs' ! k)" "k < length runs'" by simp_all
    then show ?thesis by (metis UN_I nth_mem set_concat)
  next
    case True
    with k obtain j where j: "j < length ?r" "?r ! j = y" by (auto simp: in_set_conv_nth)
    with ix assms(3) have ne: "j \<noteq> ?i" by auto
    have "y \<in> set (take ?i ?r @ drop (?i + 1) ?r)"
    proof (cases "j < ?i")
      case True
      with j have "y \<in> set (take ?i ?r)" by (auto simp: in_set_conv_nth)
      then show ?thesis by simp
    next
      case False
      with ne have ge: "?i + 1 \<le> j" by simp
      with j have "j - (?i + 1) < length (drop (?i + 1) ?r)"
        "drop (?i + 1) ?r ! (j - (?i + 1)) = y" by simp_all
      then have "y \<in> set (drop (?i + 1) ?r)" by (metis nth_mem)
      then show ?thesis by simp
    qed
    with f r' have "y \<in> set (runs' ! face)" "face < length runs'" by simp_all
    then show ?thesis by (metis UN_I nth_mem set_concat)
  qed
qed

lemma deleteInterface_keeps:
  assumes "findInterface cell face x = Inr j" and "deleteInterface cell face j = Inr cell'"
    and "y \<in> set (getInterfaces cell)" and "y \<noteq> x"
  shows "y \<in> set (getInterfaces cell')"
proof -
  from assms(1) have j: "j = findItem (m_cell_interfaces cell ! face) x 0"
    by (auto simp: findInterface_def bindE_Inr_iff subscript_def split: if_splits)
  from assms(2) obtain runs' where e: "eraseItem (m_cell_interfaces cell) face j = Inr runs'"
    and c: "cell' = cell\<lparr>m_cell_interfaces := runs'\<rparr>"
    by (auto simp: deleteInterface_def bindE_Inr_iff)
  from eraseItem_keeps [OF e [unfolded j]] assms(3,4) have "y \<in> set (concat runs')"
    by (simp add: getInterfaces_def)
  with c show ?thesis by (simp add: getInterfaces_def)
qed

lemma deleteAdjacency_interfaces:
  "deleteAdjacency cell face i = Inr cell' \<Longrightarrow> getInterfaces cell' = getInterfaces cell"
  by (auto simp: deleteAdjacency_def bindE_Inr_iff getInterfaces_def)

text \<open>One step of the loop over the interfaces of a dead cell, for an interface met for
  the first time.\<close>

lemma deleteCells_interfaces_Cons:
  assumes "deleteCells_interfaces deadCells (i # rest) (p, dI, dC) = Inr r"
  shows "(i < 0 \<or> i \<in> set dI) \<and> deleteCells_interfaces deadCells rest (p, dI, dC) = Inr r
       \<or> (0 \<le> i \<and> i \<notin> set dI \<and>
           (\<exists>interface. m_interfaces p i = Some interface \<and>
              (danglingSide deadCells interface < 0
                 \<and> deleteCells_interfaces deadCells rest (p, dI @ [i], dC) = Inr r
               \<or> 0 \<le> danglingSide deadCells interface
                 \<and> (\<exists>cell cell'. m_cells p (danglingCellOf deadCells interface) = Some cell
                       \<and> m_connect cell' = m_connect cell
                       \<and> (\<forall>y \<in> set (getInterfaces cell). y \<noteq> long_to_int i
                             \<longrightarrow> y \<in> set (getInterfaces cell'))
                       \<and> deleteCells_interfaces deadCells rest
                            (setCell (danglingCellOf deadCells interface) cell' p, dI @ [i],
                             List.insert (danglingCellOf deadCells interface) dC) = Inr r))))"
proof (cases "i < 0 \<or> i \<in> set dI")
  case True
  with assms have "deleteCells_interfaces deadCells rest (p, dI, dC) = Inr r"
    by (cases "i < 0") simp_all
  with True show ?thesis by simp
next
  case False
  then have F: "\<not> i < 0" "i \<notin> set dI" by simp_all
  with assms obtain interface where I: "m_interfaces p i = Some interface"
    by (cases "m_interfaces p i") simp_all
  show ?thesis
  proof (cases "0 \<le> danglingSide deadCells interface")
    case neg: False
    with assms F I have "deleteCells_interfaces deadCells rest (p, dI @ [i], dC) = Inr r" by simp
    with neg F I show ?thesis by simp
  next
    case pos: True
    let ?face = "if danglingSide deadCells interface = 0
                  then m_ownerFace interface else m_neighFace interface"
    from assms F I pos obtain c0 j c2 k c3 where
      c0: "cellRef p (danglingCellOf deadCells interface) = Inr c0"
      and fi: "findInterface c0 ?face (long_to_int i) = Inr j"
      and c2: "deleteInterface c0 ?face j = Inr c2"
      and c3: "deleteAdjacency c2 ?face k = Inr c3"
      and r: "deleteCells_interfaces deadCells rest
                (setCell (danglingCellOf deadCells interface) c3 p, dI @ [i],
                 List.insert (danglingCellOf deadCells interface) dC) = Inr r"
      by (simp add: bindE_Inr_iff Let_def danglingCellOf_def) blast
    from deleteInterface_connect [OF c2] deleteAdjacency_connect [OF c3]
    have con: "m_connect c3 = m_connect c0" by simp
    have keep: "\<forall>y \<in> set (getInterfaces c0). y \<noteq> long_to_int i \<longrightarrow> y \<in> set (getInterfaces c3)"
      using deleteInterface_keeps [OF fi c2] deleteAdjacency_interfaces [OF c3] by simp
    from c0 have "m_cells p (danglingCellOf deadCells interface) = Some c0" by (simp add: cellRef_Inr)
    with con keep r have "\<exists>cell cell'. m_cells p (danglingCellOf deadCells interface) = Some cell
                       \<and> m_connect cell' = m_connect cell
                       \<and> (\<forall>y \<in> set (getInterfaces cell). y \<noteq> long_to_int i
                             \<longrightarrow> y \<in> set (getInterfaces cell'))
                       \<and> deleteCells_interfaces deadCells rest
                            (setCell (danglingCellOf deadCells interface) cell' p, dI @ [i],
                             List.insert (danglingCellOf deadCells interface) dC) = Inr r"
      by blast
    moreover from F have "0 \<le> i" by simp
    ultimately show ?thesis using F(2) I pos by blast
  qed
qed

text \<open>The loop over the interfaces of a dead cell.\<close>

lemma deleteCells_interfaces_inv:
  assumes "deleteCells_interfaces deadCells ids (p, dI, dC) = Inr (p', dI', dC')"
  shows "m_vertices p' = m_vertices p \<and> m_interfaces p' = m_interfaces p
       \<and> (\<forall>c. map_option m_connect (m_cells p' c) = map_option m_connect (m_cells p c))
       \<and> (\<forall>c \<in> set deadCells. m_cells p' c = m_cells p c)
       \<and> set dI' = set dI \<union> {i \<in> set ids. 0 \<le> i}
       \<and> set dC \<subseteq> set dC'
       \<and> (\<forall>i interface. i \<in> set ids \<and> 0 \<le> i \<and> i \<notin> set dI \<and> m_interfaces p i = Some interface
              \<and> 0 \<le> danglingSide deadCells interface
            \<longrightarrow> danglingCellOf deadCells interface \<in> set dC')"
  using assms
proof (induction ids arbitrary: p dI dC)
  case Nil
  then show ?case by simp
next
  case (Cons i rest)
  from deleteCells_interfaces_Cons [OF Cons.prems]
  consider (skip) "i < 0 \<or> i \<in> set dI"
      "deleteCells_interfaces deadCells rest (p, dI, dC) = Inr (p', dI', dC')"
    | (plain) interface where "0 \<le> i" "i \<notin> set dI" "m_interfaces p i = Some interface"
      "danglingSide deadCells interface < 0"
      "deleteCells_interfaces deadCells rest (p, dI @ [i], dC) = Inr (p', dI', dC')"
    | (dangling) interface cell cell' where "0 \<le> i" "i \<notin> set dI"
      "m_interfaces p i = Some interface" "0 \<le> danglingSide deadCells interface"
      "m_cells p (danglingCellOf deadCells interface) = Some cell"
      "m_connect cell' = m_connect cell"
      "deleteCells_interfaces deadCells rest
         (setCell (danglingCellOf deadCells interface) cell' p, dI @ [i],
          List.insert (danglingCellOf deadCells interface) dC) = Inr (p', dI', dC')"
    by blast
  then show ?case
  proof cases
    case skip
    from Cons.IH [OF skip(2)] skip(1) show ?thesis by auto
  next
    case plain
    note ih = Cons.IH [OF plain(5)]
    have f: "\<forall>j interface'. j \<in> set (i # rest) \<and> 0 \<le> j \<and> j \<notin> set dI
              \<and> m_interfaces p j = Some interface' \<and> 0 \<le> danglingSide deadCells interface'
            \<longrightarrow> danglingCellOf deadCells interface' \<in> set dC'"
    proof (intro allI impI)
      fix j interface'
      assume j: "j \<in> set (i # rest) \<and> 0 \<le> j \<and> j \<notin> set dI
              \<and> m_interfaces p j = Some interface' \<and> 0 \<le> danglingSide deadCells interface'"
      with plain(3,4) have "j \<noteq> i" by auto
      with j have "j \<in> set rest \<and> 0 \<le> j \<and> j \<notin> set (dI @ [i])
             \<and> m_interfaces p j = Some interface' \<and> 0 \<le> danglingSide deadCells interface'"
        by simp
      with ih show "danglingCellOf deadCells interface' \<in> set dC'" by blast
    qed
    have d: "set dI' = set dI \<union> {j \<in> set (i # rest). 0 \<le> j}" using ih plain(1) by auto
    from ih d f show ?thesis by blast
  next
    case dangling
    let ?d = "danglingCellOf deadCells interface"
    let ?p1 = "setCell ?d cell' p"
    note ih = Cons.IH [OF dangling(7)]
    have alive: "?d \<notin> set deadCells" by (rule danglingCellOf_alive [OF dangling(4)])
    have p1: "m_vertices ?p1 = m_vertices p" "m_interfaces ?p1 = m_interfaces p"
      "\<And>c. map_option m_connect (m_cells ?p1 c) = map_option m_connect (m_cells p c)"
      "\<And>c. c \<in> set deadCells \<Longrightarrow> m_cells ?p1 c = m_cells p c"
      using dangling(5,6) alive by (auto simp: setCell_def)
    have a: "m_vertices p' = m_vertices p \<and> m_interfaces p' = m_interfaces p" using ih p1 by simp
    have b: "\<forall>c. map_option m_connect (m_cells p' c) = map_option m_connect (m_cells p c)"
      using ih p1(3) by simp
    have c: "\<forall>c \<in> set deadCells. m_cells p' c = m_cells p c" using ih p1(4) by simp
    have d: "set dI' = set dI \<union> {j \<in> set (i # rest). 0 \<le> j}" using ih dangling(1) by auto
    have e: "set dC \<subseteq> set dC'" and dd: "?d \<in> set dC'" using ih by auto
    have f: "\<forall>j interface'. j \<in> set (i # rest) \<and> 0 \<le> j \<and> j \<notin> set dI
              \<and> m_interfaces p j = Some interface' \<and> 0 \<le> danglingSide deadCells interface'
            \<longrightarrow> danglingCellOf deadCells interface' \<in> set dC'"
    proof (intro allI impI)
      fix j interface'
      assume j: "j \<in> set (i # rest) \<and> 0 \<le> j \<and> j \<notin> set dI
              \<and> m_interfaces p j = Some interface' \<and> 0 \<le> danglingSide deadCells interface'"
      show "danglingCellOf deadCells interface' \<in> set dC'"
      proof (cases "j = i")
        case True
        with j dangling(3) have "interface' = interface" by simp
        with dd show ?thesis by simp
      next
        case False
        with j have "j \<in> set rest \<and> 0 \<le> j \<and> j \<notin> set (dI @ [i])
             \<and> m_interfaces ?p1 j = Some interface' \<and> 0 \<le> danglingSide deadCells interface'"
          using p1(2) by simp
        with ih show ?thesis by blast
      qed
    qed
    from a b c d e f show ?thesis by blast
  qed
qed

lemma set_fold_insert: "set (fold List.insert xs ys) = set xs \<union> set ys"
  by (induction xs arbitrary: ys) auto

text \<open>
  The loop over the dead cells.  \<open>deadInterfaces\<close> and \<open>danglingCells\<close> go together: the
  side that stays of every interface treated so far is among the dangling cells.
\<close>

lemma deleteCells_cells_inv:
  assumes "deleteCells_cells deadCells cs (p, dV, dI, dC) = Inr (p', dV', dI', dC')"
    and "distinct cs" and "set cs \<subseteq> set deadCells"
    and "\<forall>i interface. i \<in> set dI \<and> m_interfaces p i = Some interface
            \<and> 0 \<le> danglingSide deadCells interface
          \<longrightarrow> danglingCellOf deadCells interface \<in> set dC"
  shows "m_vertices p' = m_vertices p \<and> m_interfaces p' = m_interfaces p
       \<and> (\<forall>c \<in> set cs. m_cells p' c = None \<and> m_cells p c \<noteq> None)
       \<and> (\<forall>c. c \<notin> set cs \<longrightarrow>
             map_option m_connect (m_cells p' c) = map_option m_connect (m_cells p c))
       \<and> (\<forall>v. v \<in> set dV' \<longleftrightarrow>
             v \<in> set dV \<or> (\<exists>c cell. c \<in> set cs \<and> m_cells p c = Some cell \<and> v \<in> set (m_connect cell)))
       \<and> set dC \<subseteq> set dC'
       \<and> (\<forall>c cell i interface. c \<in> set cs \<and> m_cells p c = Some cell
              \<and> i \<in> set (getInterfaces cell) \<and> 0 \<le> i \<and> m_interfaces p i = Some interface
              \<and> 0 \<le> danglingSide deadCells interface
            \<longrightarrow> danglingCellOf deadCells interface \<in> set dC')"
  using assms
proof (induction cs arbitrary: p dV dI dC)
  case Nil
  then show ?case by simp
next
  case (Cons c rest)
  from Cons.prems(1) obtain cell p1 dI1 dC1 where
    cell: "m_cells p c = Some cell"
    and inner: "deleteCells_interfaces deadCells (getInterfaces cell) (p, dI, dC) = Inr (p1, dI1, dC1)"
    and rest: "deleteCells_cells deadCells rest
                 (deleteCell c p1, fold List.insert (m_connect cell) dV, dI1, dC1)
               = Inr (p', dV', dI', dC')"
    by (auto simp: bindE_Inr_iff cellRef_Inr)
  note i1 = deleteCells_interfaces_inv [OF inner]
  let ?p2 = "deleteCell c p1"
  have c_rest: "c \<notin> set rest" "distinct rest" "set rest \<subseteq> set deadCells" "c \<in> set deadCells"
    using Cons.prems(2,3) by auto
  have p2v: "m_vertices ?p2 = m_vertices p" "m_interfaces ?p2 = m_interfaces p"
    using i1 by (simp_all add: deleteCell_def)
  have p2c: "m_cells ?p2 c = None"
    "\<And>d. d \<noteq> c \<Longrightarrow> map_option m_connect (m_cells ?p2 d) = map_option m_connect (m_cells p d)"
    "\<And>d. d \<in> set rest \<Longrightarrow> m_cells ?p2 d = m_cells p d"
    using i1 c_rest by (auto simp: deleteCell_def)
  have inv1: "\<forall>i interface. i \<in> set dI1 \<and> m_interfaces ?p2 i = Some interface
            \<and> 0 \<le> danglingSide deadCells interface
          \<longrightarrow> danglingCellOf deadCells interface \<in> set dC1"
  proof (intro allI impI)
    fix i interface
    assume a: "i \<in> set dI1 \<and> m_interfaces ?p2 i = Some interface
            \<and> 0 \<le> danglingSide deadCells interface"
    show "danglingCellOf deadCells interface \<in> set dC1"
    proof (cases "i \<in> set dI")
      case True
      with a p2v(2) have "i \<in> set dI \<and> m_interfaces p i = Some interface
            \<and> 0 \<le> danglingSide deadCells interface" by simp
      with Cons.prems(4) have "danglingCellOf deadCells interface \<in> set dC" by blast
      with i1 show ?thesis by auto
    next
      case False
      with a i1 have "i \<in> set (getInterfaces cell) \<and> 0 \<le> i" by auto
      with a False p2v(2) have "i \<in> set (getInterfaces cell) \<and> 0 \<le> i \<and> i \<notin> set dI
          \<and> m_interfaces p i = Some interface \<and> 0 \<le> danglingSide deadCells interface" by simp
      with i1 show ?thesis by blast
    qed
  qed
  note ih = Cons.IH [OF rest c_rest(2,3) inv1]
  have a: "m_vertices p' = m_vertices p \<and> m_interfaces p' = m_interfaces p" using ih p2v by simp
  have b: "\<forall>d \<in> set (c # rest). m_cells p' d = None \<and> m_cells p d \<noteq> None"
  proof
    fix d assume d: "d \<in> set (c # rest)"
    show "m_cells p' d = None \<and> m_cells p d \<noteq> None"
    proof (cases "d \<in> set rest")
      case True
      with ih p2c(3) show ?thesis by simp
    next
      case False
      with d have dc: "d = c" by simp
      with False ih have "map_option m_connect (m_cells p' c) = map_option m_connect (m_cells ?p2 c)"
        by simp
      with p2c(1) dc cell show ?thesis by simp
    qed
  qed
  have c': "\<forall>d. d \<notin> set (c # rest) \<longrightarrow>
             map_option m_connect (m_cells p' d) = map_option m_connect (m_cells p d)"
    using ih p2c(2) by simp
  have d: "\<forall>v. v \<in> set dV' \<longleftrightarrow>
             v \<in> set dV \<or> (\<exists>d cell'. d \<in> set (c # rest) \<and> m_cells p d = Some cell'
                               \<and> v \<in> set (m_connect cell'))"
  proof
    fix v
    from ih have "v \<in> set dV' \<longleftrightarrow>
        v \<in> set (fold List.insert (m_connect cell) dV)
        \<or> (\<exists>d cell'. d \<in> set rest \<and> m_cells ?p2 d = Some cell' \<and> v \<in> set (m_connect cell'))"
      by blast
    also have "\<dots> \<longleftrightarrow> v \<in> set dV \<or> v \<in> set (m_connect cell)
        \<or> (\<exists>d cell'. d \<in> set rest \<and> m_cells p d = Some cell' \<and> v \<in> set (m_connect cell'))"
      using p2c(3) by (auto simp: set_fold_insert)
    also have "\<dots> \<longleftrightarrow> v \<in> set dV \<or> (\<exists>d cell'. d \<in> set (c # rest) \<and> m_cells p d = Some cell'
                               \<and> v \<in> set (m_connect cell'))"
      using cell by auto
    finally show "v \<in> set dV' \<longleftrightarrow>
             v \<in> set dV \<or> (\<exists>d cell'. d \<in> set (c # rest) \<and> m_cells p d = Some cell'
                               \<and> v \<in> set (m_connect cell'))" .
  qed
  have e: "set dC \<subseteq> set dC'" and e1: "set dC1 \<subseteq> set dC'" using ih i1 by auto
  have f: "\<forall>d cell' i interface. d \<in> set (c # rest) \<and> m_cells p d = Some cell'
              \<and> i \<in> set (getInterfaces cell') \<and> 0 \<le> i \<and> m_interfaces p i = Some interface
              \<and> 0 \<le> danglingSide deadCells interface
            \<longrightarrow> danglingCellOf deadCells interface \<in> set dC'"
  proof (intro allI impI)
    fix d cell' i interface
    assume h: "d \<in> set (c # rest) \<and> m_cells p d = Some cell'
              \<and> i \<in> set (getInterfaces cell') \<and> 0 \<le> i \<and> m_interfaces p i = Some interface
              \<and> 0 \<le> danglingSide deadCells interface"
    show "danglingCellOf deadCells interface \<in> set dC'"
    proof (cases "d \<in> set rest")
      case True
      with h p2c(3) p2v(2) have "d \<in> set rest \<and> m_cells ?p2 d = Some cell'
              \<and> i \<in> set (getInterfaces cell') \<and> 0 \<le> i \<and> m_interfaces ?p2 i = Some interface
              \<and> 0 \<le> danglingSide deadCells interface" by simp
      with ih show ?thesis by blast
    next
      case False
      with h cell have cc: "cell' = cell" by auto
      have "danglingCellOf deadCells interface \<in> set dC1"
      proof (cases "i \<in> set dI")
        case True
        with h Cons.prems(4) have "danglingCellOf deadCells interface \<in> set dC" by blast
        with i1 show ?thesis by auto
      next
        case nd: False
        with h cc have "i \<in> set (getInterfaces cell) \<and> 0 \<le> i \<and> i \<notin> set dI
          \<and> m_interfaces p i = Some interface \<and> 0 \<le> danglingSide deadCells interface" by simp
        with i1 show ?thesis by blast
      qed
      with e1 show ?thesis by auto
    qed
  qed
  from a b c' d e f show ?case by blast
qed

text \<open>The loops that take the kept vertices out of \<open>deadVertices\<close>: whatever they keep is a
  vertex of a cell that is still in the patch.\<close>

lemma keepVerticesOf_inv:
  assumes "keepVerticesOf tree octantInfo conn ks (st, dV) = Inr (st', dV')"
  shows "(\<forall>k \<in> set ks. k < length conn) \<and> set dV' = set dV - (\<lambda>k. conn ! k) ` set ks"
  using assms
proof (induction ks arbitrary: st dV)
  case Nil
  then show ?case by simp
next
  case (Cons k ks)
  from Cons.prems obtain st1 where k: "k < length conn"
    and rest: "keepVerticesOf tree octantInfo conn ks (st1, removeAll (conn ! k) dV) = Inr (st', dV')"
    by (auto simp: bindE_Inr_iff subscript_def Let_def split: if_splits)
  from Cons.IH [OF rest] k show ?case by auto
qed

lemma keepVerticesOf_kept:
  assumes "keepVerticesOf tree octantInfo conn ks (st, dV) = Inr (st', dV')"
  shows "set dV' \<subseteq> set dV \<and> (\<forall>v \<in> set dV - set dV'. v \<in> set conn)"
  using keepVerticesOf_inv [OF assms] by auto

lemma deleteCells_keepInterfaces_Cons:
  assumes "deleteCells_keepInterfaces cellTypeInfo interfaceTypeInfo p (i # rest) (st, dV) = Inr r"
  shows "deleteCells_keepInterfaces cellTypeInfo interfaceTypeInfo p rest (st, dV) = Inr r
       \<or> (\<exists>(interface :: Interface) ownerCell ownerOctantInfo ks st1 dV1.
             m_cells p (m_owner interface) = Some ownerCell
           \<and> keepVerticesOf (m_tree p) ownerOctantInfo (m_connect ownerCell) ks (st, dV) = Inr (st1, dV1)
           \<and> deleteCells_keepInterfaces cellTypeInfo interfaceTypeInfo p rest (st1, dV1) = Inr r)"
proof (cases "i < 0")
  case True
  with assms show ?thesis by simp
next
  case False
  with assms obtain interface where I: "m_interfaces p i = Some interface"
    by (cases "m_interfaces p i") simp_all
  show ?thesis
  proof (cases "isBorder interface")
    case True
    with assms False I show ?thesis by simp
  next
    case nb: False
    from assms False I nb obtain ownerCell ownerOctantInfo localFaceConnect r1 where
      o: "cellRef p (m_owner interface) = Inr ownerCell"
      and k: "keepVerticesOf (m_tree p) ownerOctantInfo (m_connect ownerCell)
                (take (nVertices interfaceTypeInfo) localFaceConnect) (st, dV) = Inr r1"
      and rest: "deleteCells_keepInterfaces cellTypeInfo interfaceTypeInfo p rest r1 = Inr r"
      by (simp add: bindE_Inr_iff split: if_splits) blast
    obtain st1 dV1 where r1: "r1 = (st1, dV1)" by (cases r1)
    from o have oc: "m_cells p (m_owner interface) = Some ownerCell" by (simp add: cellRef_Inr)
    from oc k [unfolded r1] rest [unfolded r1] show ?thesis by blast
  qed
qed

lemma deleteCells_keepInterfaces_inv:
  assumes "deleteCells_keepInterfaces cellTypeInfo interfaceTypeInfo p ids (st, dV) = Inr (st', dV')"
  shows "set dV' \<subseteq> set dV
       \<and> (\<forall>v \<in> set dV - set dV'. \<exists>c cell. m_cells p c = Some cell \<and> v \<in> set (m_connect cell))"
  using assms
proof (induction ids arbitrary: st dV)
  case Nil
  then show ?case by simp
next
  case (Cons i rest)
  from deleteCells_keepInterfaces_Cons [OF Cons.prems]
  consider (skip) "deleteCells_keepInterfaces cellTypeInfo interfaceTypeInfo p rest (st, dV) = Inr (st', dV')"
    | (keep) interface :: Interface and ownerCell ownerOctantInfo ks st1 dV1 where
        "m_cells p (m_owner interface) = Some ownerCell"
        "keepVerticesOf (m_tree p) ownerOctantInfo (m_connect ownerCell) ks (st, dV) = Inr (st1, dV1)"
        "deleteCells_keepInterfaces cellTypeInfo interfaceTypeInfo p rest (st1, dV1) = Inr (st', dV')"
    by blast
  then show ?case
  proof cases
    case skip
    from Cons.IH [OF skip] show ?thesis .
  next
    case keep
    note k = keepVerticesOf_kept [OF keep(2)]
    note ih = Cons.IH [OF keep(3)]
    show ?thesis
    proof (intro conjI ballI)
      show "set dV' \<subseteq> set dV" using k ih by blast
    next
      fix v assume v: "v \<in> set dV - set dV'"
      show "\<exists>c cell. m_cells p c = Some cell \<and> v \<in> set (m_connect cell)"
      proof (cases "v \<in> set dV1")
        case True
        with v ih show ?thesis by blast
      next
        case False
        with v k have "v \<in> set (m_connect ownerCell)" by blast
        with keep(1) show ?thesis by blast
      qed
    qed
  qed
qed

lemma deleteCells_dangling_inv:
  assumes "deleteCells_dangling cellTypeInfo interfaceTypeInfo p cs (st, dV) = Inr (st', dV')"
  shows "set dV' \<subseteq> set dV
       \<and> (\<forall>v \<in> set dV - set dV'. \<exists>c cell. m_cells p c = Some cell \<and> v \<in> set (m_connect cell))
       \<and> (\<forall>c cell v. c \<in> set cs \<and> m_cells p c = Some cell
              \<and> v \<in> set (take (nVertices cellTypeInfo) (m_connect cell)) \<longrightarrow> v \<notin> set dV')"
  using assms
proof (induction cs arbitrary: st dV)
  case Nil
  then show ?case by simp
next
  case (Cons c rest)
  from Cons.prems obtain cell octantInfo r1 r2 where
    cell: "m_cells p c = Some cell"
    and k: "keepVerticesOf (m_tree p) octantInfo (m_connect cell) [0..<nVertices cellTypeInfo] (st, dV)
              = Inr r1"
    and i: "deleteCells_keepInterfaces cellTypeInfo interfaceTypeInfo p (getInterfaces cell) r1 = Inr r2"
    and rest: "deleteCells_dangling cellTypeInfo interfaceTypeInfo p rest r2 = Inr (st', dV')"
    by (auto simp: bindE_Inr_iff cellRef_Inr)
  obtain st1 dV1 where r1: "r1 = (st1, dV1)" by (cases r1)
  obtain st2 dV2 where r2: "r2 = (st2, dV2)" by (cases r2)
  note kk = keepVerticesOf_inv [OF k [unfolded r1]]
  note ki = deleteCells_keepInterfaces_inv [OF i [unfolded r1 r2]]
  note ih = Cons.IH [OF rest [unfolded r2]]
  have sub: "set dV' \<subseteq> set dV2" "set dV2 \<subseteq> set dV1" "set dV1 \<subseteq> set dV"
    using kk ki ih by auto
  have mine: "set (take (nVertices cellTypeInfo) (m_connect cell)) \<inter> set dV1 = {}"
  proof -
    from kk have le: "nVertices cellTypeInfo \<le> length (m_connect cell)"
      by (cases "nVertices cellTypeInfo") auto
    have "set (take (nVertices cellTypeInfo) (m_connect cell))
            = (\<lambda>k. m_connect cell ! k) ` set [0..<nVertices cellTypeInfo]"
      using nth_image [OF le] by simp
    with kk show ?thesis by auto
  qed
  show ?case
  proof (intro conjI ballI allI impI)
    show "set dV' \<subseteq> set dV" using sub by blast
  next
    fix v assume v: "v \<in> set dV - set dV'"
    show "\<exists>c cell. m_cells p c = Some cell \<and> v \<in> set (m_connect cell)"
    proof (cases "v \<in> set dV1")
      case False
      with v kk have "v \<in> set (m_connect cell)" by auto
      with cell show ?thesis by blast
    next
      case in1: True
      show ?thesis
      proof (cases "v \<in> set dV2")
        case False
        with in1 ki show ?thesis by blast
      next
        case True
        with v ih show ?thesis by blast
      qed
    qed
  next
    fix d cell' v
    assume h: "d \<in> set (c # rest) \<and> m_cells p d = Some cell'
              \<and> v \<in> set (take (nVertices cellTypeInfo) (m_connect cell'))"
    show "v \<notin> set dV'"
    proof (cases "d \<in> set rest")
      case True
      with h ih show ?thesis by blast
    next
      case False
      with h cell have "cell' = cell" by auto
      with h mine have "v \<notin> set dV1" by auto
      with sub show ?thesis by blast
    qed
  qed
qed

lemma deleteVertices_all_vertices:
  "m_vertices (deleteVertices_all ids p) v = (if v \<in> set ids then None else m_vertices p v)"
proof -
  have "fold (\<lambda>v m. m(v := None)) ids m v = (if v \<in> set ids then None else m v)" for m :: "long \<rightharpoonup> array3D"
    by (induction ids arbitrary: m) auto
  then show ?thesis by (simp add: deleteVertices_all_def)
qed

lemma deleteCells_stages:
  assumes "deleteCells cellTypeInfo interfaceTypeInfo p deleted = Inr (stitchVertices, p')"
    and "deadCells = remdups (map di_cellId deleted)"
  shows "\<exists>p1 dV dI dC dV'.
           deleteCells_cells deadCells deadCells (p, [], [], []) = Inr (p1, dV, dI, dC)
         \<and> deleteCells_dangling cellTypeInfo interfaceTypeInfo (deleteInterfaces_all dI p1) dC
             (Map.empty, dV) = Inr (stitchVertices, dV')
         \<and> p' = deleteVertices_all dV' (deleteInterfaces_all dI p1)"
  using assms by (auto simp: deleteCells_def Let_def bindE_Inr_iff)

subsection \<open>deleteCells: the runs of the cells that stay\<close>

text \<open>The loop over the interfaces of a dead cell takes out of the runs of the cells only
  what \<open>findInterface\<close> looks for: the ids it treats, converted to \<^verbatim>\<open>int\<close>.\<close>

lemma deleteCells_interfaces_runs:
  assumes "deleteCells_interfaces deadCells ids (p, dI, dC) = Inr (p', dI', dC')"
    and "m_cells p c = Some cell" and "y \<in> set (getInterfaces cell)"
    and "y \<notin> long_to_int ` set ids"
  shows "\<exists>cell'. m_cells p' c = Some cell' \<and> y \<in> set (getInterfaces cell')"
  using assms
proof (induction ids arbitrary: p dI dC cell)
  case Nil
  then show ?case by simp
next
  case (Cons i rest)
  from Cons.prems(4) have yi: "y \<noteq> long_to_int i" and yr: "y \<notin> long_to_int ` set rest" by auto
  from deleteCells_interfaces_Cons [OF Cons.prems(1)]
  consider (same) dI1 where "deleteCells_interfaces deadCells rest (p, dI1, dC) = Inr (p', dI', dC')"
    | (dangling) interface cell0 cell1 where
      "m_cells p (danglingCellOf deadCells interface) = Some cell0"
      "\<forall>y \<in> set (getInterfaces cell0). y \<noteq> long_to_int i \<longrightarrow> y \<in> set (getInterfaces cell1)"
      "deleteCells_interfaces deadCells rest
         (setCell (danglingCellOf deadCells interface) cell1 p, dI @ [i],
          List.insert (danglingCellOf deadCells interface) dC) = Inr (p', dI', dC')"
    by blast
  then show ?case
  proof cases
    case same
    from Cons.IH [OF same Cons.prems(2,3) yr] show ?thesis .
  next
    case dangling
    let ?d = "danglingCellOf deadCells interface"
    show ?thesis
    proof (cases "c = ?d")
      case True
      with dangling(1) Cons.prems(2) have "cell0 = cell" by simp
      with dangling(2) Cons.prems(3) yi have y1: "y \<in> set (getInterfaces cell1)" by blast
      have "m_cells (setCell ?d cell1 p) c = Some cell1" using True by (simp add: setCell_def)
      from Cons.IH [OF dangling(3) this y1 yr] show ?thesis .
    next
      case False
      then have "m_cells (setCell ?d cell1 p) c = Some cell"
        using Cons.prems(2) by (simp add: setCell_def)
      from Cons.IH [OF dangling(3) this Cons.prems(3) yr] show ?thesis .
    qed
  qed
qed

text \<open>The same for the loop over the dead cells, and the interfaces that it lists as
  dead: those in the runs of the dead cells.\<close>

lemma deleteCells_cells_runs:
  assumes "deleteCells_cells deadCells cs (p, dV, dI, dC) = Inr (p', dV', dI', dC')"
    and "distinct cs" and "set cs \<subseteq> set deadCells"
    and "c \<notin> set deadCells" and "m_cells p c = Some cell" and "y \<in> set (getInterfaces cell)"
    and "\<forall>d cellD. d \<in> set cs \<and> m_cells p d = Some cellD
           \<longrightarrow> y \<notin> long_to_int ` set (getInterfaces cellD)"
  shows "\<exists>cell'. m_cells p' c = Some cell' \<and> y \<in> set (getInterfaces cell')"
  using assms
proof (induction cs arbitrary: p dV dI dC cell)
  case Nil
  then show ?case by simp
next
  case (Cons d rest)
  from Cons.prems(1) obtain cellD p1 dI1 dC1 where
    cellD: "m_cells p d = Some cellD"
    and inner: "deleteCells_interfaces deadCells (getInterfaces cellD) (p, dI, dC) = Inr (p1, dI1, dC1)"
    and rest: "deleteCells_cells deadCells rest
                 (deleteCell d p1, fold List.insert (m_connect cellD) dV, dI1, dC1)
               = Inr (p', dV', dI', dC')"
    by (auto simp: bindE_Inr_iff cellRef_Inr)
  note i1 = deleteCells_interfaces_inv [OF inner]
  from Cons.prems(7) cellD have "y \<notin> long_to_int ` set (getInterfaces cellD)" by auto
  from deleteCells_interfaces_runs [OF inner Cons.prems(5,6) this]
  obtain cell1 where c1: "m_cells p1 c = Some cell1" "y \<in> set (getInterfaces cell1)" by blast
  have dd: "d \<in> set deadCells" "d \<notin> set rest" "distinct rest" "set rest \<subseteq> set deadCells"
    using Cons.prems(2,3) by auto
  with Cons.prems(4) have "c \<noteq> d" by auto
  with c1 have c2: "m_cells (deleteCell d p1) c = Some cell1" by (simp add: deleteCell_def)
  have cond: "\<forall>d' cellD'. d' \<in> set rest \<and> m_cells (deleteCell d p1) d' = Some cellD'
           \<longrightarrow> y \<notin> long_to_int ` set (getInterfaces cellD')"
  proof (intro allI impI)
    fix d' cellD' assume h: "d' \<in> set rest \<and> m_cells (deleteCell d p1) d' = Some cellD'"
    with dd have "d' \<noteq> d" "d' \<in> set deadCells" by auto
    with h i1 have "m_cells p d' = Some cellD'" by (simp add: deleteCell_def)
    with h Cons.prems(7) show "y \<notin> long_to_int ` set (getInterfaces cellD')" by auto
  qed
  from Cons.IH [OF rest dd(3,4) Cons.prems(4) c2 c1(2) cond] show ?case .
qed

lemma deleteCells_cells_deadInterfaces:
  assumes "deleteCells_cells deadCells cs (p, dV, dI, dC) = Inr (p', dV', dI', dC')"
    and "distinct cs" and "set cs \<subseteq> set deadCells" and "i \<in> set dI'"
  shows "i \<in> set dI
       \<or> (\<exists>d cellD. d \<in> set cs \<and> m_cells p d = Some cellD \<and> i \<in> set (getInterfaces cellD) \<and> 0 \<le> i)"
  using assms
proof (induction cs arbitrary: p dV dI dC)
  case Nil
  then show ?case by simp
next
  case (Cons d rest)
  from Cons.prems(1) obtain cellD p1 dI1 dC1 where
    cellD: "m_cells p d = Some cellD"
    and inner: "deleteCells_interfaces deadCells (getInterfaces cellD) (p, dI, dC) = Inr (p1, dI1, dC1)"
    and rest: "deleteCells_cells deadCells rest
                 (deleteCell d p1, fold List.insert (m_connect cellD) dV, dI1, dC1)
               = Inr (p', dV', dI', dC')"
    by (auto simp: bindE_Inr_iff cellRef_Inr)
  note i1 = deleteCells_interfaces_inv [OF inner]
  have dd: "d \<in> set deadCells" "d \<notin> set rest" "distinct rest" "set rest \<subseteq> set deadCells"
    using Cons.prems(2,3) by auto
  from Cons.IH [OF rest dd(3,4) Cons.prems(4)]
  consider "i \<in> set dI1"
    | d' cellD' where "d' \<in> set rest" "m_cells (deleteCell d p1) d' = Some cellD'"
        "i \<in> set (getInterfaces cellD')" "0 \<le> i"
    by blast
  then show ?case
  proof cases
    case 1
    with i1 have "i \<in> set dI \<or> (i \<in> set (getInterfaces cellD) \<and> 0 \<le> i)" by auto
    with cellD show ?thesis by auto
  next
    case 2
    with dd have "d' \<noteq> d" "d' \<in> set deadCells" by auto
    with 2(2) i1 have "m_cells p d' = Some cellD'" by (simp add: deleteCell_def)
    with 2 show ?thesis by auto
  qed
qed

lemma deleteInterfaces_all_interfaces:
  "m_interfaces (deleteInterfaces_all ids p) i = (if i \<in> set ids then None else m_interfaces p i)"
proof -
  have "fold (\<lambda>i m. m(i := None)) ids m i = (if i \<in> set ids then None else m i)"
    for m :: "long \<rightharpoonup> Interface"
    by (induction ids arbitrary: m) auto
  then show ?thesis by (simp add: deleteInterfaces_all_def)
qed

subsection \<open>deleteCells: the faces of the interfaces left on the dangling cells\<close>

lemma keepVerticesOf_faceVertices:
  assumes "keepVerticesOf tree octantInfo conn ks (st, dV) = Inr (st', dV')"
  shows "set (map (\<lambda>k. conn ! k) ks) \<inter> set dV' = {}"
  using keepVerticesOf_inv [OF assms] by auto

lemma deleteCells_keepInterfaces_faces:
  assumes "deleteCells_keepInterfaces cellTypeInfo interfaceTypeInfo p ids (st, dV) = Inr (st', dV')"
    and "i \<in> set ids" and "0 \<le> i" and "m_interfaces p i = Some interface"
    and "\<not> isBorder interface" and "m_cells p (m_owner interface) = Some ownerCell"
  shows "set (faceVertices cellTypeInfo interfaceTypeInfo ownerCell (m_ownerFace interface))
           \<inter> set dV' = {}"
  using assms(1,2)
proof (induction ids arbitrary: st dV)
  case Nil
  then show ?case by simp
next
  case (Cons j rest)
  show ?case
  proof (cases "j = i")
    case True
    from Cons.prems(1) True assms(3-6) obtain ownerOctantInfo r1 where
      f: "m_ownerFace interface < length (faceConnect cellTypeInfo)"
      and k: "keepVerticesOf (m_tree p) ownerOctantInfo (m_connect ownerCell)
                (take (nVertices interfaceTypeInfo) (faceConnect cellTypeInfo ! m_ownerFace interface))
                (st, dV) = Inr r1"
      and rest: "deleteCells_keepInterfaces cellTypeInfo interfaceTypeInfo p rest r1 = Inr (st', dV')"
      by (auto simp: bindE_Inr_iff cellRef_def subscript_def split: if_splits)
    obtain st1 dV1 where r1: "r1 = (st1, dV1)" by (cases r1)
    from keepVerticesOf_faceVertices [OF k [unfolded r1]]
    have "set (faceVertices cellTypeInfo interfaceTypeInfo ownerCell (m_ownerFace interface))
            \<inter> set dV1 = {}"
      by (simp add: faceVertices_def)
    moreover from deleteCells_keepInterfaces_inv [OF rest [unfolded r1]] have "set dV' \<subseteq> set dV1"
      by simp
    ultimately show ?thesis by blast
  next
    case False
    with Cons.prems(2) have ir: "i \<in> set rest" by simp
    from deleteCells_keepInterfaces_Cons [OF Cons.prems(1)]
    obtain st1 dV1 where
      "deleteCells_keepInterfaces cellTypeInfo interfaceTypeInfo p rest (st1, dV1) = Inr (st', dV')"
      by blast
    from Cons.IH [OF this ir] show ?thesis .
  qed
qed

lemma deleteCells_dangling_faces:
  assumes "deleteCells_dangling cellTypeInfo interfaceTypeInfo p cs (st, dV) = Inr (st', dV')"
    and "c \<in> set cs" and "m_cells p c = Some cell" and "i \<in> set (getInterfaces cell)"
    and "0 \<le> i" and "m_interfaces p i = Some interface"
    and "\<not> isBorder interface" and "m_cells p (m_owner interface) = Some ownerCell"
  shows "set (faceVertices cellTypeInfo interfaceTypeInfo ownerCell (m_ownerFace interface))
           \<inter> set dV' = {}"
  using assms(1,2)
proof (induction cs arbitrary: st dV)
  case Nil
  then show ?case by simp
next
  case (Cons d rest)
  from Cons.prems(1) obtain cellD octantInfo r1 r2 where
    cellD: "m_cells p d = Some cellD"
    and k: "keepVerticesOf (m_tree p) octantInfo (m_connect cellD) [0..<nVertices cellTypeInfo] (st, dV)
              = Inr r1"
    and ki: "deleteCells_keepInterfaces cellTypeInfo interfaceTypeInfo p (getInterfaces cellD) r1 = Inr r2"
    and rest: "deleteCells_dangling cellTypeInfo interfaceTypeInfo p rest r2 = Inr (st', dV')"
    by (auto simp: bindE_Inr_iff cellRef_Inr)
  obtain st1 dV1 where r1: "r1 = (st1, dV1)" by (cases r1)
  obtain st2 dV2 where r2: "r2 = (st2, dV2)" by (cases r2)
  show ?case
  proof (cases "c \<in> set rest")
    case True
    from Cons.IH [OF rest [unfolded r2] True] show ?thesis .
  next
    case False
    with Cons.prems(2) have "c = d" by simp
    with cellD assms(3) have "cellD = cell" by simp
    from deleteCells_keepInterfaces_faces [OF ki [unfolded r1 r2 this] assms(4-8)]
    have "set (faceVertices cellTypeInfo interfaceTypeInfo ownerCell (m_ownerFace interface))
            \<inter> set dV2 = {}" .
    moreover from deleteCells_dangling_inv [OF rest [unfolded r2]] have "set dV' \<subseteq> set dV2" by simp
    ultimately show ?thesis by blast
  qed
qed

subsection \<open>deleteCells on a well-formed patch\<close>

text \<open>On a chain from a dead cell to a cell that stays, some step goes from a dead cell to
  a cell that stays which is the end of the chain or has a next step to a cell that
  stays.\<close>

lemma chain_leaves_dead_cells:
  assumes "R\<^sup>*\<^sup>* a b" and "a \<in> D" and "b \<notin> D"
  shows "\<exists>c c'. c \<in> D \<and> c' \<notin> D \<and> R c c' \<and> (c' = b \<or> (\<exists>c''. c'' \<notin> D \<and> R c' c''))"
proof -
  let ?found = "\<exists>c c'. c \<in> D \<and> c' \<notin> D \<and> R c c' \<and> (c' = b \<or> (\<exists>c''. c'' \<notin> D \<and> R c' c''))"
  from assms(1) have "(a \<notin> D \<and> (a = b \<or> (\<exists>c''. c'' \<notin> D \<and> R a c''))) \<or> ?found"
  proof (induction rule: converse_rtranclp_induct)
    case base
    with assms(3) show ?case by simp
  next
    case (step y z)
    then show ?case by blast
  qed
  with assms(2) show ?thesis by blast
qed

lemma faceVertices_connect:
  "m_connect cell' = m_connect cell \<Longrightarrow>
     faceVertices cellTypeInfo interfaceTypeInfo cell' face
       = faceVertices cellTypeInfo interfaceTypeInfo cell face"
  by (simp add: faceVertices_def)

subsection \<open>Deleting the cell 0 of the four-cell patch\<close>

lemmas dc_defs = deleteCells_def deleteCell_def deleteInterfaces_all_def deleteVertices_all_def
  cellRef_def getInterfaces_def danglingSide_def isBorder_def findInterface_def findAdjacency_def
  deleteInterface_def deleteAdjacency_def eraseItem_def subscript_def long_to_int_def setCell_def
  getCellOctant_def map_at_def bindE_Inr_iff Let_def patchOf_def deletion_def faceCell_def
  innerInterface_def latticeVertices_def gridPatch_def gridTree_def rootTree_def pixelInfo_def
  lineInfo_def connectOf_def hasVertex_def

lemma patchOf_Some: "patchOf r = Some q \<Longrightarrow> \<exists>stitchVertices. r = Inr (stitchVertices, q)"
  by (auto simp: patchOf_def split: sum.splits)

lemma deleteCells_interfacedGridPatch:
  "connectOf (patchOf (deleteCells pixelInfo lineInfo interfacedGridPatch [deletion 0])) 3
     = Some [4, 5, 7, 8]"
  by (simp add: dc_defs interfacedGridPatch_def upt_rec)

subsection \<open>The four-cell patch is well formed\<close>

lemma interfacedGridPatch_fields:
  "m_cells interfacedGridPatch =
      [0 \<mapsto> faceCell [0, 1, 3, 4] [[], [0], [], [1]] [[], [1], [], [2]],
       1 \<mapsto> faceCell [1, 2, 4, 5] [[0], [], [], [2]] [[0], [], [], [3]],
       2 \<mapsto> faceCell [3, 4, 6, 7] [[], [3], [1], []] [[], [3], [0], []],
       3 \<mapsto> faceCell [4, 5, 7, 8] [[3], [], [2], []] [[2], [], [1], []]]"
  "m_interfaces interfacedGridPatch =
      [0 \<mapsto> innerInterface 0 1 1 0, 1 \<mapsto> innerInterface 0 3 2 2,
       2 \<mapsto> innerInterface 1 3 3 2, 3 \<mapsto> innerInterface 2 1 3 0]"
  "m_vertices interfacedGridPatch = latticeVertices"
  by (simp_all add: interfacedGridPatch_def)

lemma meetAt_0_1:
  assumes "v = 1 \<or> v = 4"
  shows "meetAt pixelInfo lineInfo interfacedGridPatch v 0 1"
  unfolding meetAt_def
  by (rule exI [of _ 0], rule exI [of _ "innerInterface 0 1 1 0"],
      rule exI [of _ "faceCell [0, 1, 3, 4] [[], [0], [], [1]] [[], [1], [], [2]]"],
      rule exI [of _ "faceCell [1, 2, 4, 5] [[0], [], [], [2]] [[0], [], [], [3]]"],
      rule exI [of _ "faceCell [0, 1, 3, 4] [[], [0], [], [1]] [[], [1], [], [2]]"])
    (use assms in \<open>auto simp: interfacedGridPatch_fields innerInterface_def faceCell_def isBorder_def
       getInterfaces_def faceVertices_def pixelInfo_def lineInfo_def\<close>)

lemma meetAt_0_2:
  assumes "v = 3 \<or> v = 4"
  shows "meetAt pixelInfo lineInfo interfacedGridPatch v 0 2"
  unfolding meetAt_def
  by (rule exI [of _ 1], rule exI [of _ "innerInterface 0 3 2 2"],
      rule exI [of _ "faceCell [0, 1, 3, 4] [[], [0], [], [1]] [[], [1], [], [2]]"],
      rule exI [of _ "faceCell [3, 4, 6, 7] [[], [3], [1], []] [[], [3], [0], []]"],
      rule exI [of _ "faceCell [0, 1, 3, 4] [[], [0], [], [1]] [[], [1], [], [2]]"])
    (use assms in \<open>auto simp: interfacedGridPatch_fields innerInterface_def faceCell_def isBorder_def
       getInterfaces_def faceVertices_def pixelInfo_def lineInfo_def\<close>)

lemma meetAt_1_3:
  "meetAt pixelInfo lineInfo interfacedGridPatch 4 1 3"
  unfolding meetAt_def
  by (rule exI [of _ 2], rule exI [of _ "innerInterface 1 3 3 2"],
      rule exI [of _ "faceCell [1, 2, 4, 5] [[0], [], [], [2]] [[0], [], [], [3]]"],
      rule exI [of _ "faceCell [4, 5, 7, 8] [[3], [], [2], []] [[2], [], [1], []]"],
      rule exI [of _ "faceCell [1, 2, 4, 5] [[0], [], [], [2]] [[0], [], [], [3]]"])
    (auto simp: interfacedGridPatch_fields innerInterface_def faceCell_def isBorder_def
       getInterfaces_def faceVertices_def pixelInfo_def lineInfo_def)

lemma interfacedGridPatch_wellFormed:
  "wellFormedForDeletion pixelInfo lineInfo interfacedGridPatch [0]"
proof -
  have len: "\<forall>c cell. m_cells interfacedGridPatch c = Some cell
                \<longrightarrow> length (m_connect cell) = nVertices pixelInfo"
    by (auto simp: interfacedGridPatch_fields faceCell_def pixelInfo_def split: if_splits)
  have fit: "\<forall>c cell i. m_cells interfacedGridPatch c = Some cell \<and> i \<in> set (getInterfaces cell)
        \<longrightarrow> - (2 ^ 31) \<le> i \<and> i < 2 ^ 31"
    by (auto simp: interfacedGridPatch_fields faceCell_def getInterfaces_def split: if_splits)
  have own: "\<forall>c cell i interface. m_cells interfacedGridPatch c = Some cell
          \<and> i \<in> set (getInterfaces cell) \<and> 0 \<le> i
          \<and> m_interfaces interfacedGridPatch i = Some interface
        \<longrightarrow> m_owner interface = c \<or> m_neigh interface = c"
    by (auto simp: interfacedGridPatch_fields faceCell_def getInterfaces_def innerInterface_def
        split: if_splits)
  have star: "\<forall>v a b cellA cellB.
          a \<in> set [0] \<and> m_cells interfacedGridPatch a = Some cellA \<and> v \<in> set (m_connect cellA)
        \<and> b \<notin> set [0] \<and> m_cells interfacedGridPatch b = Some cellB \<and> v \<in> set (m_connect cellB)
        \<longrightarrow> (meetAt pixelInfo lineInfo interfacedGridPatch v)\<^sup>*\<^sup>* a b"
  proof (intro allI impI)
    fix v a b cellA cellB
    assume h: "a \<in> set [0] \<and> m_cells interfacedGridPatch a = Some cellA \<and> v \<in> set (m_connect cellA)
        \<and> b \<notin> set [0] \<and> m_cells interfacedGridPatch b = Some cellB \<and> v \<in> set (m_connect cellB)"
    then have a: "a = 0" by simp
    from h a consider "b = 1" "v = 1 \<or> v = 4" | "b = 2" "v = 3 \<or> v = 4" | "b = 3" "v = 4"
      by (auto simp: interfacedGridPatch_fields faceCell_def split: if_splits)
    then show "(meetAt pixelInfo lineInfo interfacedGridPatch v)\<^sup>*\<^sup>* a b"
    proof cases
      case 1
      from meetAt_0_1 [OF 1(2)] show ?thesis unfolding a 1(1) by (rule r_into_rtranclp)
    next
      case 2
      from meetAt_0_2 [OF 2(2)] show ?thesis unfolding a 2(1) by (rule r_into_rtranclp)
    next
      case 3
      have "meetAt pixelInfo lineInfo interfacedGridPatch 4 0 1" by (rule meetAt_0_1) simp
      with meetAt_1_3 have "(meetAt pixelInfo lineInfo interfacedGridPatch 4)\<^sup>*\<^sup>* 0 3"
        by (meson rtranclp.rtrancl_into_rtrancl r_into_rtranclp)
      then show ?thesis unfolding a 3 .
    qed
  qed
  from len fit own star show ?thesis unfolding wellFormedForDeletion_def by blast
qed

text \<open>
  C5.  \<open>deleteCells\<close> returns, on a well-formed patch; \<open>deadCells\<close> are the ids of the
  deleted cells.  Then the deleted cells are out of the patch and every other cell keeps
  its connectivity; every vertex in the connectivity of a cell left in the patch is in
  the vertex container as it was before, whether the cell is a dangling cell or not; and
  a vertex of a deleted cell that no cell left in the patch refers to is removed.
\<close>

theorem deleteCells_keeps_referenced_vertices:
  assumes "deleteCells cellTypeInfo interfaceTypeInfo p deleted = Inr (stitchVertices, p')"
    and "deadCells = remdups (map di_cellId deleted)"
    and "wellFormedForDeletion cellTypeInfo interfaceTypeInfo p deadCells"
  shows "(\<forall>c \<in> set deadCells. m_cells p' c = None)
       \<and> (\<forall>c. c \<notin> set deadCells \<longrightarrow>
             map_option m_connect (m_cells p' c) = map_option m_connect (m_cells p c))
       \<and> (\<forall>c cell v. m_cells p' c = Some cell \<and> v \<in> set (m_connect cell)
             \<longrightarrow> m_vertices p' v = m_vertices p v)
       \<and> (\<forall>d cell v.
             d \<in> set deadCells \<and> m_cells p d = Some cell \<and> v \<in> set (m_connect cell)
             \<and> (\<forall>c cell'. m_cells p' c = Some cell' \<longrightarrow> v \<notin> set (m_connect cell'))
             \<longrightarrow> m_vertices p' v = None)"
proof -
  from deleteCells_stages [OF assms(1,2)] obtain p1 dV dI dC dV' where
    loop1: "deleteCells_cells deadCells deadCells (p, [], [], []) = Inr (p1, dV, dI, dC)"
    and loop2: "deleteCells_dangling cellTypeInfo interfaceTypeInfo (deleteInterfaces_all dI p1) dC
             (Map.empty, dV) = Inr (stitchVertices, dV')"
    and p': "p' = deleteVertices_all dV' (deleteInterfaces_all dI p1)"
    by blast
  let ?p2 = "deleteInterfaces_all dI p1"
  have dist: "distinct deadCells" using assms(2) by simp
  have inv0: "\<forall>i interface. i \<in> set [] \<and> m_interfaces p i = Some interface
            \<and> 0 \<le> danglingSide deadCells interface
          \<longrightarrow> danglingCellOf deadCells interface \<in> set []" by simp
  note l1 = deleteCells_cells_inv [OF loop1 dist subset_refl inv0]
  note l2 = deleteCells_dangling_inv [OF loop2]
  from assms(3) have
    wf_len: "\<And>c cell. m_cells p c = Some cell \<Longrightarrow> length (m_connect cell) = nVertices cellTypeInfo"
    and wf_int: "\<And>c cell i. m_cells p c = Some cell \<Longrightarrow> i \<in> set (getInterfaces cell)
                   \<Longrightarrow> - (2 ^ 31) \<le> i \<and> i < 2 ^ 31"
    and wf_own: "\<And>c cell i interface. m_cells p c = Some cell \<Longrightarrow> i \<in> set (getInterfaces cell)
                   \<Longrightarrow> 0 \<le> i \<Longrightarrow> m_interfaces p i = Some interface
                   \<Longrightarrow> m_owner interface = c \<or> m_neigh interface = c"
    and wf_star: "\<And>v a b cellA cellB. a \<in> set deadCells \<Longrightarrow> m_cells p a = Some cellA
                   \<Longrightarrow> v \<in> set (m_connect cellA) \<Longrightarrow> b \<notin> set deadCells
                   \<Longrightarrow> m_cells p b = Some cellB \<Longrightarrow> v \<in> set (m_connect cellB)
                   \<Longrightarrow> (meetAt cellTypeInfo interfaceTypeInfo p v)\<^sup>*\<^sup>* a b"
    unfolding wellFormedForDeletion_def by blast+
  have cells': "m_cells p' = m_cells p1"
    by (simp add: p' deleteVertices_all_def deleteInterfaces_all_def)
  have cells2: "m_cells ?p2 = m_cells p1" by (simp add: deleteInterfaces_all_def)
  have vert: "m_vertices p' v = (if v \<in> set dV' then None else m_vertices p v)" for v
    using l1 by (simp add: p' deleteVertices_all_vertices deleteInterfaces_all_def)
  have dVmem: "v \<in> set dV \<longleftrightarrow>
      (\<exists>c cell. c \<in> set deadCells \<and> m_cells p c = Some cell \<and> v \<in> set (m_connect cell))" for v
    using l1 by simp
  have alive: "\<exists>cell2. m_cells p1 c = Some cell2 \<and> m_connect cell2 = m_connect cell"
    if "c \<notin> set deadCells" "m_cells p c = Some cell" for c cell
  proof -
    from l1 that(1) have "map_option m_connect (m_cells p1 c) = map_option m_connect (m_cells p c)"
      by simp
    with that(2) show ?thesis by auto
  qed
  have a: "\<forall>c \<in> set deadCells. m_cells p' c = None" using l1 cells' by simp
  have b: "\<forall>c. c \<notin> set deadCells \<longrightarrow>
             map_option m_connect (m_cells p' c) = map_option m_connect (m_cells p c)"
    using l1 cells' by simp
  have notDead: "i \<notin> long_to_int ` set (getInterfaces cellD) \<and> i \<notin> set dI"
    if h: "0 \<le> i" "m_interfaces p i = Some interface" "m_owner interface \<notin> set deadCells"
      "m_neigh interface \<notin> set deadCells"
      and d: "d \<in> set deadCells" "m_cells p d = Some cellD" for i interface d cellD
  proof
    show "i \<notin> long_to_int ` set (getInterfaces cellD)"
    proof
      assume "i \<in> long_to_int ` set (getInterfaces cellD)"
      then obtain j where j: "j \<in> set (getInterfaces cellD)" "i = long_to_int j" by blast
      from wf_int [OF d(2) j(1)] have "long_to_int j = j" by (simp add: long_to_int_in_range)
      with j have "i \<in> set (getInterfaces cellD)" by simp
      from wf_own [OF d(2) this h(1,2)] h(3,4) d(1) show False by auto
    qed
    show "i \<notin> set dI"
    proof
      assume "i \<in> set dI"
      from deleteCells_cells_deadInterfaces [OF loop1 dist subset_refl this]
      obtain d' cellD' where "d' \<in> set deadCells" "m_cells p d' = Some cellD'"
        "i \<in> set (getInterfaces cellD')" by auto
      from wf_own [OF this(2,3) h(1,2)] h(3,4) this(1) show False by auto
    qed
  qed
  have c: "\<forall>c cell v. m_cells p' c = Some cell \<and> v \<in> set (m_connect cell)
             \<longrightarrow> m_vertices p' v = m_vertices p v"
  proof (intro allI impI)
    fix c cell v
    assume h: "m_cells p' c = Some cell \<and> v \<in> set (m_connect cell)"
    with a have cal: "c \<notin> set deadCells" by auto
    with b h obtain cell0 where c0: "m_cells p c = Some cell0" "m_connect cell0 = m_connect cell"
      by (cases "m_cells p c") (auto dest!: spec [of _ c])
    have "v \<notin> set dV'"
    proof (cases "v \<in> set dV")
      case False
      with l2 show ?thesis by blast
    next
      case True
      with dVmem obtain a0 cellA where a0: "a0 \<in> set deadCells" "m_cells p a0 = Some cellA"
        "v \<in> set (m_connect cellA)" by blast
      from h c0 have vc: "v \<in> set (m_connect cell0)" by simp
      from wf_star [OF a0 cal c0(1) vc]
      have "(meetAt cellTypeInfo interfaceTypeInfo p v)\<^sup>*\<^sup>* a0 c" .
      from chain_leaves_dead_cells [OF this a0(1) cal]
      obtain x x' where x: "x \<in> set deadCells" "x' \<notin> set deadCells"
        "meetAt cellTypeInfo interfaceTypeInfo p v x x'"
        and nxt: "x' = c \<or> (\<exists>x''. x'' \<notin> set deadCells \<and> meetAt cellTypeInfo interfaceTypeInfo p v x' x'')"
        by blast
      from x(3) obtain i interface cellX cellX' where
        i: "0 \<le> i" "m_interfaces p i = Some interface" "\<not> isBorder interface"
        "m_owner interface = x \<and> m_neigh interface = x' \<or> m_owner interface = x' \<and> m_neigh interface = x"
        "m_cells p x = Some cellX" "i \<in> set (getInterfaces cellX)" "m_cells p x' = Some cellX'"
        unfolding meetAt_def by blast
      from i(3,4) x(1,2) have side: "0 \<le> danglingSide deadCells interface"
        "danglingCellOf deadCells interface = x'"
        by (auto simp: danglingSide_def danglingCellOf_def)
      from l1 x(1) i(5,6,1,2) side have inC: "x' \<in> set dC" by blast
      from alive [OF x(2) i(7)] obtain cellX2 where
        x2: "m_cells ?p2 x' = Some cellX2" "m_connect cellX2 = m_connect cellX'"
        by (auto simp: cells2)
      from nxt show ?thesis
      proof
        assume "x' = c"
        with i(7) c0 x2(2) have "m_connect cellX2 = m_connect cell0" by simp
        moreover from wf_len [OF c0(1)] have "take (nVertices cellTypeInfo) (m_connect cell0) = m_connect cell0"
          by simp
        ultimately have "v \<in> set (take (nVertices cellTypeInfo) (m_connect cellX2))" using vc by simp
        with l2 inC x2(1) show ?thesis by blast
      next
        assume "\<exists>x''. x'' \<notin> set deadCells \<and> meetAt cellTypeInfo interfaceTypeInfo p v x' x''"
        then obtain x'' where x'': "x'' \<notin> set deadCells"
          "meetAt cellTypeInfo interfaceTypeInfo p v x' x''" by blast
        from x''(2) obtain i' interface' cellY ownerCell where
          i': "0 \<le> i'" "m_interfaces p i' = Some interface'" "\<not> isBorder interface'"
          "m_owner interface' = x' \<and> m_neigh interface' = x''
             \<or> m_owner interface' = x'' \<and> m_neigh interface' = x'"
          "m_cells p x' = Some cellY" "i' \<in> set (getInterfaces cellY)"
          "m_cells p (m_owner interface') = Some ownerCell"
          "v \<in> set (faceVertices cellTypeInfo interfaceTypeInfo ownerCell (m_ownerFace interface'))"
          unfolding meetAt_def by blast
        from i'(4) x(2) x''(1) have sides: "m_owner interface' \<notin> set deadCells"
          "m_neigh interface' \<notin> set deadCells" by auto
        note nd = notDead [OF i'(1,2) sides]
        have "\<forall>d cellD. d \<in> set deadCells \<and> m_cells p d = Some cellD
                \<longrightarrow> i' \<notin> long_to_int ` set (getInterfaces cellD)"
          using nd by blast
        from deleteCells_cells_runs [OF loop1 dist subset_refl x(2) i'(5,6) this]
        obtain cellY2 where y2: "m_cells p1 x' = Some cellY2" "i' \<in> set (getInterfaces cellY2)"
          by blast
        have "i' \<notin> set dI" using nd [OF a0(1,2)] by simp
        with i'(2) l1 have itf2: "m_interfaces ?p2 i' = Some interface'"
          by (simp add: deleteInterfaces_all_interfaces)
        from alive [OF sides(1) i'(7)] obtain owner2 where
          o2: "m_cells ?p2 (m_owner interface') = Some owner2" "m_connect owner2 = m_connect ownerCell"
          by (auto simp: cells2)
        from y2 have y2': "m_cells ?p2 x' = Some cellY2" by (simp add: cells2)
        from deleteCells_dangling_faces [OF loop2 inC y2' y2(2) i'(1) itf2 i'(3) o2(1)]
        have "set (faceVertices cellTypeInfo interfaceTypeInfo owner2 (m_ownerFace interface'))
                \<inter> set dV' = {}" .
        with i'(8) faceVertices_connect [OF o2(2)] show ?thesis by auto
      qed
    qed
    with vert show "m_vertices p' v = m_vertices p v" by simp
  qed
  have e: "\<forall>d cell v.
             d \<in> set deadCells \<and> m_cells p d = Some cell \<and> v \<in> set (m_connect cell)
             \<and> (\<forall>c cell'. m_cells p' c = Some cell' \<longrightarrow> v \<notin> set (m_connect cell'))
             \<longrightarrow> m_vertices p' v = None"
  proof (intro allI impI)
    fix d cell v
    assume h: "d \<in> set deadCells \<and> m_cells p d = Some cell \<and> v \<in> set (m_connect cell)
             \<and> (\<forall>c cell'. m_cells p' c = Some cell' \<longrightarrow> v \<notin> set (m_connect cell'))"
    with dVmem have inV: "v \<in> set dV" by blast
    have "v \<in> set dV'"
    proof (rule ccontr)
      assume "v \<notin> set dV'"
      with inV l2 obtain c cell' where "m_cells ?p2 c = Some cell'" "v \<in> set (m_connect cell')"
        by blast
      with h show False by (simp add: cells' cells2)
    qed
    with vert show "m_vertices p' v = None" by simp
  qed
  from a b c e show ?thesis by blast
qed

theorem deleteCells_keeps_referenced_vertices_witness:
  "connectOf (patchOf (deleteCells pixelInfo lineInfo interfacedGridPatch [deletion 0])) 0 = None
   \<and> connectOf (patchOf (deleteCells pixelInfo lineInfo interfacedGridPatch [deletion 0])) 3
       = Some [4, 5, 7, 8]
   \<and> hasVertex (patchOf (deleteCells pixelInfo lineInfo interfacedGridPatch [deletion 0])) 4
       = Some True
   \<and> hasVertex (patchOf (deleteCells pixelInfo lineInfo interfacedGridPatch [deletion 0])) 0
       = Some False"
proof -
  let ?r = "deleteCells pixelInfo lineInfo interfacedGridPatch [deletion 0]"
  from deleteCells_interfacedGridPatch obtain q where q: "patchOf ?r = Some q"
    by (cases "patchOf ?r") (simp_all add: connectOf_def)
  from patchOf_Some [OF q] obtain stitchVertices where r: "?r = Inr (stitchVertices, q)" by blast
  have dead: "[0] = remdups (map di_cellId [deletion 0])" by (simp add: deletion_def)
  note t = deleteCells_keeps_referenced_vertices [OF r dead interfacedGridPatch_wellFormed]
  note f = interfacedGridPatch_fields
  from t have c0: "m_cells q 0 = None" by simp
  from t have "map_option m_connect (m_cells q 3) = map_option m_connect (m_cells interfacedGridPatch 3)"
    by simp
  then have c3: "map_option m_connect (m_cells q 3) = Some [4, 5, 7, 8]"
    by (simp add: f faceCell_def)
  then obtain cell3 where cell3: "m_cells q 3 = Some cell3" "m_connect cell3 = [4, 5, 7, 8]" by auto
  then have "m_cells q 3 = Some cell3 \<and> 4 \<in> set (m_connect cell3)" by simp
  with t have "m_vertices q 4 = m_vertices interfacedGridPatch 4" by blast
  then have v4: "m_vertices q 4 = Some (vec (1 / 2) (1 / 2) 0)"
    by (simp add: f latticeVertices_def)
  have none0: "\<forall>c cell'. m_cells q c = Some cell' \<longrightarrow> 0 \<notin> set (m_connect cell')"
  proof (intro allI impI)
    fix c cell' assume h: "m_cells q c = Some cell'"
    with c0 have ne: "c \<noteq> 0" by auto
    with t have "map_option m_connect (m_cells q c) = map_option m_connect (m_cells interfacedGridPatch c)"
      by simp
    with h have "Some (m_connect cell') = map_option m_connect (m_cells interfacedGridPatch c)" by simp
    with ne show "0 \<notin> set (m_connect cell')"
      by (auto simp: f faceCell_def split: if_splits)
  qed
  from t have "(0::int) \<in> set [0]
      \<and> m_cells interfacedGridPatch 0 = Some (faceCell [0, 1, 3, 4] [[], [0], [], [1]] [[], [1], [], [2]])
      \<and> 0 \<in> set (m_connect (faceCell [0, 1, 3, 4] [[], [0], [], [1]] [[], [1], [], [2]]))
      \<and> (\<forall>c cell'. m_cells q c = Some cell' \<longrightarrow> 0 \<notin> set (m_connect cell'))
      \<longrightarrow> m_vertices q 0 = None"
    by blast
  with none0 have v0: "m_vertices q 0 = None" by (simp add: f faceCell_def)
  from q c0 c3 v4 v0 show ?thesis by (simp add: connectOf_def hasVertex_def)
qed


end
